theory Spec2Isabelle
  imports Complex_Main "HOL-Library.Log_Nat"
begin

section \<open>The browser video creator: data model\<close>

text \<open>
  The component \<open>VideoCreator\<close> renders a title card to MP4 inside the browser. Its
  numbers are JavaScript numbers, that is, binary64 floating-point numbers. A finite one is
  a rational, and the type of the numbers here is \<open>rat\<close>; the product and the quotient
  that the component computes are rounded to binary64 as IEEE 754 prescribes (section
  on JavaScript numbers below). NaN and the infinities are not values of the model: a
  product that overflows is outside it. Strings are \<open>string\<close>, binary data are lists of
  byte values.
\<close>

type_synonym bytes = "nat list"

datatype background = Gradient | Solid

datatype animation = Slide | Scale | Fade

record VideoConfig =
  width :: rat
  height :: rat
  duration :: rat
  fps :: rat
  title :: string
  subtitle :: string
  background :: background
  gradientStart :: string
  gradientEnd :: string
  backgroundColor :: string
  textColor :: string
  accentColor :: string
  fontSize :: rat
  subtitleSize :: rat
  animation :: animation

definition defaultConfig :: VideoConfig where
  "defaultConfig =
     \<lparr> width = 1080, height = 1920, duration = 6, fps = 30,
       title = ''Dream Big'',
       subtitle = ''Create high-impact clips without leaving your browser.'',
       background = Gradient,
       gradientStart = ''#0f172a'', gradientEnd = ''#6366f1'',
       backgroundColor = ''#0f172a'', textColor = ''#f8fafc'', accentColor = ''#22d3ee'',
       fontSize = 86, subtitleSize = 32, animation = Slide \<rparr>"

text \<open>A browser \<open>File\<close>: its name and its content.\<close>

record File =
  name :: string
  content :: bytes

section \<open>JavaScript string operations used by the component\<close>

text \<open>\<open>s.includes(c)\<close> for a one-character search string.\<close>

definition includes_str :: "string \<Rightarrow> char \<Rightarrow> bool" where
  "includes_str s c = (c \<in> set s)"

text \<open>\<open>s.lastIndexOf(c)\<close> for a one-character search string: \<open>-1\<close> when absent.\<close>

fun lastIndexOf :: "string \<Rightarrow> char \<Rightarrow> int" where
  "lastIndexOf [] c = - 1"
| "lastIndexOf (x # xs) c =
     (let r = lastIndexOf xs c
      in if 0 \<le> r then r + 1 else if x = c then 0 else - 1)"

text \<open>\<open>s.slice(start)\<close>: a negative start counts from the end, and both are clamped.\<close>

definition slice :: "string \<Rightarrow> int \<Rightarrow> string" where
  "slice s start =
     (let n = int (length s);
          k = (if start < 0 then max (n + start) 0 else min start n)
      in drop (nat k) s)"

text \<open>\<open>String(i)\<close> for a loop counter \<open>i\<close> (a non-negative integer): its decimal digits.\<close>

definition digit_char :: "nat \<Rightarrow> char" where
  "digit_char d = ''0123456789'' ! d"

fun String_nat :: "nat \<Rightarrow> string" where
  "String_nat n =
     (if n < 10 then [digit_char n] else String_nat (n div 10) @ [digit_char (n mod 10)])"

declare String_nat.simps [simp del]

text \<open>\<open>s.padStart(n, c)\<close> with a one-character filler.\<close>

definition padStart :: "string \<Rightarrow> nat \<Rightarrow> char \<Rightarrow> string" where
  "padStart s n c = replicate (n - length s) c @ s"

text \<open>
  The staged audio file name (lines 105-110):
  \<^verbatim>\<open>audioFile !== null ? `audio_input${name.includes('.') ? name.slice(name.lastIndexOf('.')) : '.mp3'}` : null\<close>
\<close>

definition audioInputName :: "File option \<Rightarrow> string option" where
  "audioInputName audioFile =
     (case audioFile of
        None \<Rightarrow> None
      | Some f \<Rightarrow>
          Some (''audio_input'' @
            (if includes_str (name f) CHR ''.''
             then slice (name f) (lastIndexOf (name f) CHR ''.'')
             else ''.mp3'')))"

section \<open>JavaScript numbers\<close>

text \<open>
  A JavaScript number is a binary64 floating-point number, and the result of \<open>*\<close> or
  \<open>/\<close> is the exact result rounded to the nearest such number, a tie going to the
  even significand (IEEE 754, as ECMAScript prescribes). The finite numbers are modelled,
  as rationals. The exponent has no upper bound here: a result beyond the largest
  finite number, which JavaScript gives as an infinity, is not modelled, and neither is
  a division by zero (the component divides by the frame count only, and only while a
  frame index is below it).
\<close>

text \<open>The nearest integer, a tie going to the even one.\<close>

definition roundHalfEven :: "rat \<Rightarrow> int" where
  "roundHalfEven m =
     (let f = \<lfloor>m\<rfloor>; d = m - rat_of_int f
      in if d < 1 / 2 then f else if 1 / 2 < d then f + 1 else if even f then f else f + 1)"

text \<open>
  The binary exponent of a number other than zero: \<open>2 ^ e \<le> |x| < 2 ^ (e + 1)\<close>. It is
  read off the bit length of the integer part, or of the integer part of the inverse.
\<close>

definition exponentOf :: "rat \<Rightarrow> int" where
  "exponentOf x =
     (if 1 \<le> \<bar>x\<bar> then bitlen \<lfloor>\<bar>x\<bar>\<rfloor> - 1 else - bitlen (\<lceil>1 / \<bar>x\<bar>\<rceil> - 1))"

text \<open>
  The spacing of the binary64 numbers around \<open>x\<close>: 53 significant bits, and no exponent
  below \<open>-1022\<close> (the subnormal numbers are spaced \<open>2 ^ -1074\<close> apart).
\<close>

definition ulpOf :: "rat \<Rightarrow> rat" where
  "ulpOf x = 2 powi (max (exponentOf x) (- 1022) - 52)"

text \<open>Rounding to the nearest binary64 number, a tie going to the even significand.\<close>

definition roundToBinary64 :: "rat \<Rightarrow> rat" where
  "roundToBinary64 x =
     (if x = 0 then 0 else rat_of_int (roundHalfEven (x / ulpOf x)) * ulpOf x)"

text \<open>
  The operators \<open>*\<close> and \<open>/\<close> on numbers: the exact result, rounded to binary64.
\<close>

definition Number_times :: "rat \<Rightarrow> rat \<Rightarrow> rat" where
  "Number_times a b = roundToBinary64 (a * b)"

definition Number_divide :: "rat \<Rightarrow> rat \<Rightarrow> rat" where
  "Number_divide a b = roundToBinary64 (a / b)"

text \<open>
  \<open>Math.floor\<close> of a finite number is its floor, \<open>\<lfloor>x\<rfloor>\<close>, which is exact.
  \<open>Math.round\<close> is the nearest integer, a half rounded up; it is exact as well.
\<close>

definition Math_round :: "rat \<Rightarrow> int" where
  "Math_round x = \<lfloor>x + 1 / 2\<rfloor>"

text \<open>The deterministic frame file name \<^verbatim>\<open>`frame_${String(i).padStart(padLength, '0')}.png`\<close>.\<close>

definition frameFileName :: "nat \<Rightarrow> nat \<Rightarrow> string" where
  "frameFileName i padLength = ''frame_'' @ padStart (String_nat i) padLength CHR ''0'' @ ''.png''"

section \<open>Exceptions, the encoder handle and the browser\<close>

text \<open>
  A thrown value is an \<open>Error\<close> with its message, or some other value. The \<open>catch\<close>
  block (lines 189-190) shows the message of the first and a fixed text for the second.
\<close>

datatype exn = Error string | NonError

definition error_message :: "exn \<Rightarrow> string" where
  "error_message err =
     (case err of Error m \<Rightarrow> m | NonError \<Rightarrow> ''Unknown error while rendering video.'')"

text \<open>
  The encoder handle is the external FFmpeg object. Its four operations are parameters of
  the model: each acts on the encoder's own storage \<open>'fs\<close>, and each may raise (and may
  still have changed the storage when it does).
\<close>

datatype FileData = Uint8Array bytes | Text string

record 'fs FFmpeg =
  deleteFile :: "string \<Rightarrow> 'fs \<Rightarrow> exn option \<times> 'fs"
  writeFile :: "string \<Rightarrow> bytes \<Rightarrow> 'fs \<Rightarrow> exn option \<times> 'fs"
  readFile :: "string \<Rightarrow> 'fs \<Rightarrow> (exn + FileData) \<times> 'fs"
  exec :: "string list \<Rightarrow> 'fs \<Rightarrow> exn option \<times> 'fs"

text \<open>
  What the component takes from outside: the encoder handle of the \<open>useFFmpeg\<close> hook
  (\<open>None\<close> for \<open>null\<close>), \<open>fetchFile\<close> of the FFmpeg utilities, the frame renderer behind
  \<open>generateFrames\<close> (the image of one frame, which configurations it rejects besides those
  with a dimension that is not positive, and the message of its error), and the
  conversion of a number to a string done by a template literal.
\<close>

record 'fs env =
  ffmpeg :: "'fs FFmpeg option"
  fetchFile :: "bytes \<Rightarrow> exn + bytes"
  renderFrame :: "VideoConfig \<Rightarrow> nat \<Rightarrow> int \<Rightarrow> exn + bytes"
  otherwiseInvalid :: "VideoConfig \<Rightarrow> bool"
  renderErrorMessage :: "VideoConfig \<Rightarrow> string"
  numberToString :: "rat \<Rightarrow> string"

text \<open>An object URL is an opaque token; the browser never hands out the same one twice.\<close>

datatype url = BlobUrl nat

text \<open>
  The calls the component makes, in the order it makes them. The list of them is kept in
  the state so that properties of the order of the calls can be stated.
\<close>

datatype event =
    SetConfig VideoConfig
  | SetAudioFile "File option"
  | SetPreviewUrl "url option"
  | SetStatus string
  | SetProgress "int option"
  | SetIsGenerating bool
  | SetError "string option"
  | DeleteFile string
  | WriteFile string
  | ReadFile string
  | Exec "string list"
  | OnFrame nat
  | CreateObjectURL url
  | RevokeObjectURL url

text \<open>
  The state: the component's \<open>useState\<close> cells and its \<open>retryCount\<close> ref (lines 38-45),
  the \<open>ready\<close> and \<open>loading\<close> cells of the hook, the encoder's storage, the browser's
  table of live object URLs, and the calls made so far.
\<close>

record 'fs state =
  config :: VideoConfig
  audioFile :: "File option"
  previewUrl :: "url option"
  status :: string
  progress :: "int option"
  isGenerating :: bool
  error :: "string option"
  retryCount :: nat
  ready :: bool
  loading :: bool
  fs :: 'fs
  objectUrls :: "url \<rightharpoonup> bytes"
  nextUrl :: nat
  trace :: "event list"

definition initialState :: "'fs \<Rightarrow> 'fs state" where
  "initialState fs0 =
     \<lparr> config = defaultConfig, audioFile = None, previewUrl = None, status = ''Idle'',
       progress = None, isGenerating = False, error = None, retryCount = 0,
       ready = False, loading = False, fs = fs0, objectUrls = Map.empty, nextUrl = 0,
       trace = [] \<rparr>"

section \<open>Primitive effects\<close>

definition emit :: "event \<Rightarrow> 'fs state \<Rightarrow> 'fs state" where
  "emit e w = w\<lparr>trace := trace w @ [e]\<rparr>"

definition setConfig :: "VideoConfig \<Rightarrow> 'fs state \<Rightarrow> 'fs state" where
  "setConfig c w = emit (SetConfig c) (w\<lparr>config := c\<rparr>)"

definition setAudioFile :: "File option \<Rightarrow> 'fs state \<Rightarrow> 'fs state" where
  "setAudioFile f w = emit (SetAudioFile f) (w\<lparr>audioFile := f\<rparr>)"

definition setPreviewUrl :: "url option \<Rightarrow> 'fs state \<Rightarrow> 'fs state" where
  "setPreviewUrl u w = emit (SetPreviewUrl u) (w\<lparr>previewUrl := u\<rparr>)"

definition setStatus :: "string \<Rightarrow> 'fs state \<Rightarrow> 'fs state" where
  "setStatus s w = emit (SetStatus s) (w\<lparr>status := s\<rparr>)"

definition setProgress :: "int option \<Rightarrow> 'fs state \<Rightarrow> 'fs state" where
  "setProgress p w = emit (SetProgress p) (w\<lparr>progress := p\<rparr>)"

definition setIsGenerating :: "bool \<Rightarrow> 'fs state \<Rightarrow> 'fs state" where
  "setIsGenerating b w = emit (SetIsGenerating b) (w\<lparr>isGenerating := b\<rparr>)"

definition setError :: "string option \<Rightarrow> 'fs state \<Rightarrow> 'fs state" where
  "setError e w = emit (SetError e) (w\<lparr>error := e\<rparr>)"

text \<open>The four calls on the encoder handle; the call is recorded whether it raises or not.\<close>

definition ff_deleteFile :: "'fs FFmpeg \<Rightarrow> string \<Rightarrow> 'fs state \<Rightarrow> exn option \<times> 'fs state" where
  "ff_deleteFile ff n w =
     (case deleteFile ff n (fs w) of (r, fs') \<Rightarrow> (r, emit (DeleteFile n) (w\<lparr>fs := fs'\<rparr>)))"

definition ff_writeFile ::
  "'fs FFmpeg \<Rightarrow> string \<Rightarrow> bytes \<Rightarrow> 'fs state \<Rightarrow> exn option \<times> 'fs state" where
  "ff_writeFile ff n d w =
     (case writeFile ff n d (fs w) of (r, fs') \<Rightarrow> (r, emit (WriteFile n) (w\<lparr>fs := fs'\<rparr>)))"

definition ff_readFile ::
  "'fs FFmpeg \<Rightarrow> string \<Rightarrow> 'fs state \<Rightarrow> (exn + FileData) \<times> 'fs state" where
  "ff_readFile ff n w =
     (case readFile ff n (fs w) of (r, fs') \<Rightarrow> (r, emit (ReadFile n) (w\<lparr>fs := fs'\<rparr>)))"

definition ff_exec :: "'fs FFmpeg \<Rightarrow> string list \<Rightarrow> 'fs state \<Rightarrow> exn option \<times> 'fs state" where
  "ff_exec ff args w =
     (case exec ff args (fs w) of (r, fs') \<Rightarrow> (r, emit (Exec args) (w\<lparr>fs := fs'\<rparr>)))"

text \<open>\<open>URL.createObjectURL\<close> and \<open>URL.revokeObjectURL\<close>.\<close>

definition createObjectURL :: "bytes \<Rightarrow> 'fs state \<Rightarrow> url \<times> 'fs state" where
  "createObjectURL blob w =
     (let u = BlobUrl (nextUrl w)
      in (u, emit (CreateObjectURL u)
               (w\<lparr>objectUrls := (objectUrls w)(u \<mapsto> blob), nextUrl := Suc (nextUrl w)\<rparr>)))"

definition revokeObjectURL :: "url \<Rightarrow> 'fs state \<Rightarrow> 'fs state" where
  "revokeObjectURL u w = emit (RevokeObjectURL u) (w\<lparr>objectUrls := (objectUrls w)(u := None)\<rparr>)"

text \<open>\<open>new TextEncoder().encode(s)\<close>: the bytes of the string.\<close>

definition TextEncoder_encode :: "string \<Rightarrow> bytes" where
  "TextEncoder_encode s = map of_char s"

section \<open>Control: sequencing with exceptions, swallowed failures, counting loops\<close>

text \<open>
  A step returns the exception it raised, if any, and the state it left. \<open>and_then\<close> is
  the semicolon between two awaited steps: the second runs only if the first did not raise.
\<close>

definition and_then ::
  "('w \<Rightarrow> exn option \<times> 'w) \<Rightarrow> ('w \<Rightarrow> exn option \<times> 'w) \<Rightarrow> 'w \<Rightarrow> exn option \<times> 'w" where
  "and_then f g w = (case f w of (Some e, w') \<Rightarrow> (Some e, w') | (None, w') \<Rightarrow> g w')"

text \<open>\<^verbatim>\<open>try { await f } catch { /* noop */ }\<close>\<close>

definition swallow :: "('w \<Rightarrow> exn option \<times> 'w) \<Rightarrow> 'w \<Rightarrow> 'w" where
  "swallow f w = snd (f w)"

text \<open>
  \<^verbatim>\<open>for (let i = i0; i < n; i += 1) { await body(i) }\<close>, left by the first exception.
  The counter is a natural number: \<open>i += 1\<close> is exact as long as \<open>i\<close> is below
  \<open>2 ^ 53\<close>, and a loop of more rounds than that is outside the model.
\<close>

function for_loop ::
  "int \<Rightarrow> nat \<Rightarrow> (nat \<Rightarrow> 'w \<Rightarrow> exn option \<times> 'w) \<Rightarrow> 'w \<Rightarrow> exn option \<times> 'w" where
  "for_loop n i body w =
     (if int i < n
      then (case body i w of
              (Some e, w') \<Rightarrow> (Some e, w')
            | (None, w') \<Rightarrow> for_loop n (Suc i) body w')
      else (None, w))"
  by pat_completeness auto
termination
  by (relation "measure (\<lambda>(n, i, body, w). nat (n - int i))") auto

declare for_loop.simps [simp del]

section \<open>The frame sequencer\<close>

text \<open>
  Modelled from the spec: the check of the configuration that the frame renderer of
  \<open>lib/generateFrames\<close> makes, whose source file is missing from the sources. The spec
  (4.1): the renderer fails with \<open>RenderError\<close> if dimensions are non-positive or the
  configuration is otherwise invalid, and this must be caught before looping frames, not
  per frame. Which other configurations are invalid, and the message of the error, are
  parameters.
\<close>

definition configError :: "'fs env \<Rightarrow> VideoConfig \<Rightarrow> exn option" where
  "configError env cfg =
     (if width cfg \<le> 0 \<or> height cfg \<le> 0 \<or> otherwiseInvalid env cfg
      then Some (Error (renderErrorMessage env cfg))
      else None)"

text \<open>
  Modelled from the spec: \<open>generateFrames\<close> of \<open>lib/generateFrames\<close>, which
  \<open>VideoCreator\<close> imports and calls and whose source file is missing from the sources.
  The spec (4.2) gives its contract: \<open>onFrame(index, image)\<close> is invoked once per index in
  strictly increasing order \<open>0..totalFrames-1\<close>, each call awaited before the next frame is
  produced; if \<open>totalFrames <= 0\<close> the sequence is empty and \<open>onFrame\<close> is never called,
  which is not an error; if \<open>onFrame\<close> fails the whole sequence aborts and the failure
  reaches the caller. The renderer (4.1) is a pure function of the configuration, the
  index and \<open>totalFrames\<close>; its check of the configuration (\<open>check\<close>) comes before the
  loop, and the rasterisation of a frame (\<open>render\<close>) may fail as well (7: raster failure
  during frame production aborts the whole sequence).
\<close>

definition generateFrames ::
  "(VideoConfig \<Rightarrow> exn option) \<Rightarrow> (VideoConfig \<Rightarrow> nat \<Rightarrow> int \<Rightarrow> exn + bytes) \<Rightarrow>
   VideoConfig \<Rightarrow> int \<Rightarrow> (nat \<Rightarrow> bytes \<Rightarrow> 'w \<Rightarrow> exn option \<times> 'w) \<Rightarrow> 'w \<Rightarrow> exn option \<times> 'w" where
  "generateFrames check render cfg totalFrames onFrame w =
     (case check cfg of
        Some e \<Rightarrow> (Some e, w)
      | None \<Rightarrow>
          for_loop totalFrames 0
            (\<lambda>i v. case render cfg i totalFrames of
                      Inl e \<Rightarrow> (Some e, v)
                    | Inr blob \<Rightarrow> onFrame i blob v)
            w)"

section \<open>The render orchestrator\<close>

text \<open>
  The \<open>onFrame\<close> callback that \<open>generateVideo\<close> passes (lines 125-130): the frame is
  written under its deterministic name, then the progress is advanced.
\<close>

definition onFrame ::
  "'fs env \<Rightarrow> 'fs FFmpeg \<Rightarrow> int \<Rightarrow> nat \<Rightarrow> nat \<Rightarrow> bytes \<Rightarrow> 'fs state
     \<Rightarrow> exn option \<times> 'fs state" where
  "onFrame env ff totalFrames padLength index blob w =
     (let w0 = emit (OnFrame index) w;
          fileName = frameFileName index padLength
      in case fetchFile env blob of
           Inl e \<Rightarrow> (Some e, w0)
         | Inr fileData \<Rightarrow>
             and_then (ff_writeFile ff fileName fileData)
               (\<lambda>w1. (None,
                  setProgress
                    (Some (Math_round
                       (Number_times
                          (Number_divide (rat_of_nat (index + 1)) (rat_of_int totalFrames)) 50)))
                    w1))
               w0)"

text \<open>
  Lines 81-118: the four setters that open the attempt, then the best-effort deletion of
  the stale output, of the frame files \<open>0..totalFrames-1\<close> and of the staged audio. Every
  failure of a deletion is swallowed, so this part never raises.
\<close>

definition prepare ::
  "'fs FFmpeg \<Rightarrow> int \<Rightarrow> nat \<Rightarrow> string option \<Rightarrow> 'fs state \<Rightarrow> 'fs state" where
  "prepare ff totalFrames padLength audioName w =
     (let w1 = setStatus ''Preparing workspace''
                 (setProgress None (setError None (setIsGenerating True w)));
          w2 = swallow (ff_deleteFile ff ''output.mp4'') w1;
          w3 = snd (for_loop totalFrames 0
                 (\<lambda>i v. (None, swallow (ff_deleteFile ff (frameFileName i padLength)) v)) w2)
      in case audioName of
           Some a \<Rightarrow> swallow (ff_deleteFile ff a) w3
         | None \<Rightarrow> w3)"

text \<open>Lines 120-131.\<close>

definition renderFrames ::
  "'fs env \<Rightarrow> 'fs FFmpeg \<Rightarrow> VideoConfig \<Rightarrow> int \<Rightarrow> nat \<Rightarrow> 'fs state
     \<Rightarrow> exn option \<times> 'fs state" where
  "renderFrames env ff cfg totalFrames padLength w =
     generateFrames (configError env) (renderFrame env) cfg totalFrames
       (onFrame env ff totalFrames padLength) (setStatus ''Rendering frames'' w)"

text \<open>Lines 133-137.\<close>

definition stageAudio ::
  "'fs env \<Rightarrow> 'fs FFmpeg \<Rightarrow> string option \<Rightarrow> File option \<Rightarrow> 'fs state
     \<Rightarrow> exn option \<times> 'fs state" where
  "stageAudio env ff audioName audio w =
     (case audioName of
        None \<Rightarrow> (None, w)
      | Some a \<Rightarrow>
          (case audio of
             None \<Rightarrow> (None, w)
           | Some f \<Rightarrow>
               (let w1 = setStatus ''Transcoding audio'' w
                in case fetchFile env (content f) of
                     Inl e \<Rightarrow> (Some e, w1)
                   | Inr audioData \<Rightarrow> ff_writeFile ff a audioData w1)))"

text \<open>Lines 141-168: the argument list, built by successive \<open>push\<close> calls.\<close>

definition command :: "string \<Rightarrow> string \<Rightarrow> string option \<Rightarrow> string list" where
  "command fpsText framePattern audioName =
     (let c0 = [''-y'', ''-framerate'', fpsText, ''-i'', framePattern];
          c1 = (case audioName of Some a \<Rightarrow> c0 @ [''-i'', a, ''-shortest''] | None \<Rightarrow> c0);
          c2 = c1 @ [''-c:v'', ''libx264'', ''-profile:v'', ''main'', ''-pix_fmt'', ''yuv420p'',
                     ''-preset'', ''medium''];
          c3 = (case audioName of Some a \<Rightarrow> c2 @ [''-c:a'', ''aac'', ''-b:a'', ''192k''] | None \<Rightarrow> c2)
      in c3 @ [''output.mp4''])"

text \<open>Lines 139-172.\<close>

definition encode ::
  "'fs env \<Rightarrow> 'fs FFmpeg \<Rightarrow> VideoConfig \<Rightarrow> string \<Rightarrow> string option \<Rightarrow> 'fs state
     \<Rightarrow> exn option \<times> 'fs state" where
  "encode env ff cfg framePattern audioName w =
     and_then (ff_exec ff (command (numberToString env (fps cfg)) framePattern audioName))
       (\<lambda>w1. (None, setStatus ''Finalizing'' (setProgress (Some 90) w1)))
       (setStatus ''Encoding video'' w)"

text \<open>
  Lines 180-183: the functional update of \<open>previewUrl\<close>, which revokes the URL it replaces.
\<close>

definition publishPreviewUrl :: "url \<Rightarrow> 'fs state \<Rightarrow> 'fs state" where
  "publishPreviewUrl u w =
     (let w1 = (case previewUrl w of Some oldUrl \<Rightarrow> revokeObjectURL oldUrl w | None \<Rightarrow> w)
      in setPreviewUrl (Some u) w1)"

text \<open>Lines 174-186.\<close>

definition finalize :: "'fs FFmpeg \<Rightarrow> 'fs state \<Rightarrow> exn option \<times> 'fs state" where
  "finalize ff w =
     (case ff_readFile ff ''output.mp4'' w of
        (Inl e, w1) \<Rightarrow> (Some e, w1)
      | (Inr outputData, w1) \<Rightarrow>
          (let byteArray = (case outputData of Uint8Array b \<Rightarrow> b | Text s \<Rightarrow> TextEncoder_encode s);
               copy = byteArray
           in case createObjectURL copy w1 of
                (u, w2) \<Rightarrow>
                  (None, setStatus ''Done'' (setProgress (Some 100) (publishPreviewUrl u w2)))))"

text \<open>
  The body of the \<open>try\<close> block (lines 81-186). \<open>config\<close> and \<open>audioFile\<close> are the values
  the callback closed over, that is, those of the state in which the attempt starts.
\<close>

definition tryBody :: "'fs env \<Rightarrow> 'fs FFmpeg \<Rightarrow> 'fs state \<Rightarrow> exn option \<times> 'fs state" where
  "tryBody env ff w =
     (let cfg = config w;
          audio = audioFile w;
          totalFrames = \<lfloor>Number_times (duration cfg) (fps cfg)\<rfloor>;
          padLength = 5;
          framePattern = ''frame_%0'' @ String_nat padLength @ ''d.png'';
          audioName = audioInputName audio
      in and_then (\<lambda>v. (None, prepare ff totalFrames padLength audioName v))
           (and_then (renderFrames env ff cfg totalFrames padLength)
              (and_then (stageAudio env ff audioName audio)
                 (and_then (encode env ff cfg framePattern audioName)
                    (finalize ff))))
           w)"

text \<open>\<open>generateVideo\<close> (lines 74-196): the readiness check, \<open>try\<close>, \<open>catch\<close>, \<open>finally\<close>.\<close>

definition generateVideo :: "'fs env \<Rightarrow> 'fs state \<Rightarrow> 'fs state" where
  "generateVideo env w =
     (case ffmpeg env of
        None \<Rightarrow> setError (Some ''FFmpeg not ready yet. Please wait a second and try again.'') w
      | Some ff \<Rightarrow>
          (case tryBody env ff w of
             (None, w1) \<Rightarrow> setIsGenerating False w1
           | (Some err, w1) \<Rightarrow>
               setIsGenerating False
                 (setStatus ''Failed''
                    (setError (Some (error_message err))
                       (w1\<lparr>retryCount := retryCount w1 + 1\<rparr>)))))"

text \<open>\<open>reset\<close> (lines 64-72).\<close>

definition reset :: "'fs state \<Rightarrow> 'fs state" where
  "reset w =
     (let w1 = setError None
                 (setProgress None
                    (setStatus ''Idle''
                       (setPreviewUrl None (setAudioFile None (setConfig defaultConfig w)))))
      in w1\<lparr>retryCount := 0\<rparr>)"

text \<open>\<open>onSubmit\<close> (lines 198-205).\<close>

definition onSubmit :: "'fs env \<Rightarrow> 'fs state \<Rightarrow> 'fs state" where
  "onSubmit env w = (if \<not> ready w \<or> loading w then w else generateVideo env w)"

text \<open>
  The two buttons of the form. The submit button is \<^verbatim>\<open>disabled={!ready || loading || isGenerating}\<close>
  and the reset button \<^verbatim>\<open>disabled={isGenerating}\<close>; a disabled button delivers no event,
  and a form whose submit button is disabled is not submitted.
\<close>

definition submitDisabled :: "'fs state \<Rightarrow> bool" where
  "submitDisabled w = (\<not> ready w \<or> loading w \<or> isGenerating w)"

definition resetDisabled :: "'fs state \<Rightarrow> bool" where
  "resetDisabled w = isGenerating w"

definition submitForm :: "'fs env \<Rightarrow> 'fs state \<Rightarrow> 'fs state" where
  "submitForm env w = (if submitDisabled w then w else onSubmit env w)"

definition clickReset :: "'fs state \<Rightarrow> 'fs state" where
  "clickReset w = (if resetDisabled w then w else reset w)"

section \<open>The encoder hook\<close>

text \<open>
  \<open>useFFmpeg\<close> keeps the encoder handle in a ref and two flags in state cells. Its
  \<open>load\<close> is asynchronous. Up to its first \<open>await\<close> it returns if \<open>ready\<close> or
  \<open>loading\<close> is set, and otherwise sets \<open>loading\<close> and creates the handle unless the ref
  holds one (\<open>new FFmpeg()\<close> is the argument \<open>newFFmpeg\<close>). When the awaited loading of
  the encoder has returned, it sets \<open>ready\<close> and then clears \<open>loading\<close>; if the loading
  raises or never returns, that second part does not run. The component is in the
  browser, where \<open>window\<close> is defined. The result of the hook is memoised on the two
  flags; the ref is written only when \<open>loading\<close> is set, so that the handle in the
  result is the one that the ref holds.
\<close>

record 'fs hook =
  ffmpegRef :: "'fs FFmpeg option"
  hook_ready :: bool
  hook_loading :: bool

definition useFFmpeg_initial :: "'fs hook" where
  "useFFmpeg_initial = \<lparr> ffmpegRef = None, hook_ready = False, hook_loading = False \<rparr>"

definition load_called :: "'fs FFmpeg \<Rightarrow> 'fs hook \<Rightarrow> 'fs hook" where
  "load_called newFFmpeg h =
     (if hook_ready h \<or> hook_loading h then h
      else h\<lparr> hook_loading := True,
              ffmpegRef := (case ffmpegRef h of None \<Rightarrow> Some newFFmpeg | Some ff \<Rightarrow> Some ff) \<rparr>)"

definition load_setReady :: "'fs hook \<Rightarrow> 'fs hook" where
  "load_setReady h = h\<lparr> hook_ready := True \<rparr>"

definition load_setLoading :: "'fs hook \<Rightarrow> 'fs hook" where
  "load_setLoading h = h\<lparr> hook_loading := False \<rparr>"

text \<open>
  What happens to the hook: \<open>load\<close> is called (the component's effect calls it after
  every change of the flags); the loading that a call has started returns and \<open>ready\<close>
  is set; \<open>loading\<close> is cleared after that. The component may render between the last
  two, or not (when the two updates are batched): every state after a history of these
  events is taken as one that the component may render with.
\<close>

datatype 'fs hook_event = LoadCalled "'fs FFmpeg" | ReadySet | LoadingCleared

fun hook_step :: "'fs hook \<Rightarrow> 'fs hook_event \<Rightarrow> 'fs hook" where
  "hook_step h (LoadCalled newFFmpeg) = load_called newFFmpeg h"
| "hook_step h ReadySet = (if hook_loading h \<and> \<not> hook_ready h then load_setReady h else h)"
| "hook_step h LoadingCleared =
     (if hook_loading h \<and> hook_ready h then load_setLoading h else h)"

definition useFFmpeg_after :: "'fs hook_event list \<Rightarrow> 'fs hook" where
  "useFFmpeg_after evs = foldl hook_step useFFmpeg_initial evs"

text \<open>
  The component renders with the result of the hook: the handle that the ref holds and
  the two flags.
\<close>

definition rendersWith :: "'fs hook \<Rightarrow> 'fs env \<Rightarrow> 'fs state \<Rightarrow> bool" where
  "rendersWith h env w \<longleftrightarrow>
     ffmpeg env = ffmpegRef h \<and> ready w = hook_ready h \<and> loading w = hook_loading h"

section \<open>Reading the history of calls\<close>

text \<open>
  The calls are sorted into kinds, so that the calls of one kind can be read off the
  history: those that set the status, the progress, the in-flight flag or the error, those
  on the output handle (creating, revoking and publishing an object URL), those on the
  encoder's storage, the run of the encoder, and the frame callback.
\<close>

datatype kind = Input | Status | Progress | Flag | Failure | Handle | Storage | Encoder | Callback

fun kind_of :: "event \<Rightarrow> kind" where
  "kind_of (SetConfig c) = Input"
| "kind_of (SetAudioFile f) = Input"
| "kind_of (SetPreviewUrl u) = Handle"
| "kind_of (SetStatus s) = Status"
| "kind_of (SetProgress p) = Progress"
| "kind_of (SetIsGenerating b) = Flag"
| "kind_of (SetError e) = Failure"
| "kind_of (DeleteFile n) = Storage"
| "kind_of (WriteFile n) = Storage"
| "kind_of (ReadFile n) = Storage"
| "kind_of (Exec args) = Encoder"
| "kind_of (OnFrame i) = Callback"
| "kind_of (CreateObjectURL u) = Handle"
| "kind_of (RevokeObjectURL u) = Handle"

text \<open>The calls of one kind, in the order they were made.\<close>

definition of_kind :: "kind \<Rightarrow> event list \<Rightarrow> event list" where
  "of_kind k tr = filter (\<lambda>e. kind_of e = k) tr"

text \<open>
  \<open>keeps k w w'\<close>: from \<open>w\<close> to \<open>w'\<close> no call of kind \<open>k\<close> was made, and the cells that
  only such calls (or none at all) change are unchanged.
\<close>

definition keeps :: "kind \<Rightarrow> 'fs state \<Rightarrow> 'fs state \<Rightarrow> bool" where
  "keeps k w w' \<longleftrightarrow>
     config w' = config w \<and> audioFile w' = audioFile w \<and>
     retryCount w' = retryCount w \<and> ready w' = ready w \<and> loading w' = loading w \<and>
     of_kind k (trace w') = of_kind k (trace w) \<and>
     (k = Status \<longrightarrow> status w' = status w) \<and>
     (k = Progress \<longrightarrow> progress w' = progress w) \<and>
     (k = Flag \<longrightarrow> isGenerating w' = isGenerating w) \<and>
     (k = Failure \<longrightarrow> error w' = error w) \<and>
     (k = Handle \<longrightarrow>
        previewUrl w' = previewUrl w \<and> objectUrls w' = objectUrls w \<and> nextUrl w' = nextUrl w)"

text \<open>
  Names for the values that \<open>generateVideo\<close> computes from the state in which an attempt
  starts: the frame count, the staged audio name, the state after the clean-up, the
  encoder's argument list, and the progress reported after frame \<open>i\<close> of \<open>n\<close>.
\<close>

abbreviation frameCount :: "'fs state \<Rightarrow> int" where
  "frameCount w \<equiv> \<lfloor>Number_times (duration (config w)) (fps (config w))\<rfloor>"

abbreviation audioName :: "'fs state \<Rightarrow> string option" where
  "audioName w \<equiv> audioInputName (audioFile w)"

abbreviation prepared :: "'fs FFmpeg \<Rightarrow> 'fs state \<Rightarrow> 'fs state" where
  "prepared ff w \<equiv> prepare ff (frameCount w) 5 (audioName w) w"

abbreviation encoderArgs :: "'fs env \<Rightarrow> 'fs state \<Rightarrow> string list" where
  "encoderArgs env w \<equiv>
     command (numberToString env (fps (config w))) ''frame_%05d.png'' (audioName w)"

abbreviation frameProgress :: "nat \<Rightarrow> int \<Rightarrow> int" where
  "frameProgress i n \<equiv>
     Math_round (Number_times (Number_divide (rat_of_nat (i + 1)) (rat_of_int n)) 50)"

text \<open>
  The production of frame \<open>i\<close> of \<open>n\<close>, which is the body of the loop of
  \<open>generateFrames\<close> as \<open>generateVideo\<close> calls it, and the exception that it raises, if any:
  that of the renderer, else that of \<open>fetchFile\<close>, else that of \<open>writeFile\<close>.
\<close>

abbreviation frameStep ::
  "'fs env \<Rightarrow> 'fs FFmpeg \<Rightarrow> VideoConfig \<Rightarrow> int \<Rightarrow> nat \<Rightarrow> nat \<Rightarrow> 'fs state
     \<Rightarrow> exn option \<times> 'fs state" where
  "frameStep env ff cfg n pad \<equiv>
     (\<lambda>i v. case renderFrame env cfg i n of
               Inl e \<Rightarrow> (Some e, v)
             | Inr blob \<Rightarrow> onFrame env ff n pad i blob v)"

abbreviation frameFailure ::
  "'fs env \<Rightarrow> 'fs FFmpeg \<Rightarrow> VideoConfig \<Rightarrow> int \<Rightarrow> nat \<Rightarrow> nat \<Rightarrow> 'fs state \<Rightarrow> exn option" where
  "frameFailure env ff cfg n pad i v \<equiv>
     (case renderFrame env cfg i n of
        Inl e \<Rightarrow> Some e
      | Inr blob \<Rightarrow>
          (case fetchFile env blob of
             Inl e \<Rightarrow> Some e
           | Inr fileData \<Rightarrow> fst (writeFile ff (frameFileName i pad) fileData (fs v))))"

text \<open>The calls of an attempt in which nothing raises, up to the end of the \<open>try\<close> block.\<close>

definition successfulCalls :: "'fs env \<Rightarrow> 'fs state \<Rightarrow> event list" where
  "successfulCalls env w =
     [SetIsGenerating True, SetError None, SetProgress None,
      SetStatus ''Preparing workspace'', DeleteFile ''output.mp4'']
     @ map (\<lambda>i. DeleteFile (frameFileName i 5)) [0 ..< nat (frameCount w)]
     @ (case audioName w of Some a \<Rightarrow> [DeleteFile a] | None \<Rightarrow> [])
     @ [SetStatus ''Rendering frames'']
     @ concat (map (\<lambda>i. [OnFrame i, WriteFile (frameFileName i 5),
                           SetProgress (Some (frameProgress i (frameCount w)))])
         [0 ..< nat (frameCount w)])
     @ (case audioName w of
          Some a \<Rightarrow> [SetStatus ''Transcoding audio'', WriteFile a] | None \<Rightarrow> [])
     @ [SetStatus ''Encoding video'', Exec (encoderArgs env w), SetProgress (Some 90),
        SetStatus ''Finalizing'', ReadFile ''output.mp4'',
        CreateObjectURL (BlobUrl (nextUrl w))]
     @ (case previewUrl w of Some oldUrl \<Rightarrow> [RevokeObjectURL oldUrl] | None \<Rightarrow> [])
     @ [SetPreviewUrl (Some (BlobUrl (nextUrl w))), SetProgress (Some 100), SetStatus ''Done'']"

text \<open>
  The output handle is in order when the live object URLs are exactly the published one
  (none when nothing is published), and the browser's next URL is a new one.
\<close>

definition oneLiveHandle :: "'fs state \<Rightarrow> bool" where
  "oneLiveHandle w \<longleftrightarrow>
     dom (objectUrls w) = set_option (previewUrl w) \<and>
     (\<forall>k. BlobUrl k \<in> dom (objectUrls w) \<longrightarrow> k < nextUrl w)"

section \<open>Example encoders and states\<close>

text \<open>
  Two encoder handles for the examples: one whose operations never raise, and one whose
  \<open>exec\<close> always raises. In the example environment \<open>fetchFile\<close> and the rendering of
  a frame never raise, the renderer rejects only the configurations with a dimension that
  is not positive, and a whole number that is not negative is printed in decimal.
  \<open>idle\<close> is the component as first mounted, once the hook reports \<open>ready\<close>.
\<close>

definition quietFFmpeg :: "unit FFmpeg" where
  "quietFFmpeg =
     \<lparr> deleteFile = (\<lambda>n s. (None, s)), writeFile = (\<lambda>n d s. (None, s)),
       readFile = (\<lambda>n s. (Inr (Uint8Array [0, 0, 0, 32]), s)), exec = (\<lambda>args s. (None, s)) \<rparr>"

definition brokenFFmpeg :: "unit FFmpeg" where
  "brokenFFmpeg = quietFFmpeg\<lparr>exec := (\<lambda>args s. (Some (Error ''Conversion failed''), s))\<rparr>"

definition quietEnv :: "unit FFmpeg option \<Rightarrow> unit env" where
  "quietEnv handle =
     \<lparr> ffmpeg = handle, fetchFile = (\<lambda>b. Inr b), renderFrame = (\<lambda>cfg i n. Inr [i]),
       otherwiseInvalid = (\<lambda>cfg. False), renderErrorMessage = (\<lambda>cfg. ''RenderError''),
       numberToString =
         (\<lambda>q. if 0 \<le> q \<and> rat_of_int \<lfloor>q\<rfloor> = q then String_nat (nat \<lfloor>q\<rfloor>) else ''?'') \<rparr>"

definition idle :: "unit state" where
  "idle = (initialState ())\<lparr>ready := True\<rparr>"

text \<open>The component after one attempt in which nothing raised.\<close>

definition published :: "unit state" where
  "published = generateVideo (quietEnv (Some quietFFmpeg)) idle"

text \<open>
  Two more starting states: a clip of two frames with an audio file, and a configuration
  with a negative duration.
\<close>

definition shortClip :: "unit state" where
  "shortClip =
     idle\<lparr>config := defaultConfig\<lparr>duration := 1, fps := 2\<rparr>,
          audioFile := Some \<lparr>name = ''song.WAV'', content = [7]\<rparr>\<rparr>"

definition negativeDuration :: "unit state" where
  "negativeDuration = idle\<lparr>config := defaultConfig\<lparr>duration := - 1\<rparr>\<rparr>"


definition fullFFmpeg :: "unit FFmpeg" where
  "fullFFmpeg = quietFFmpeg\<lparr>writeFile := (\<lambda>n d s. (Some (Error ''No space left''), s))\<rparr>"



text \<open>
  More starting states. A duration of \<open>0.3333333333333333\<close> (the binary64 number nearest
  to a third) at 3 frames per second; a duration of zero; a width of zero, with a
  duration of zero; and the component as first mounted and while the encoder is loading.
\<close>

definition thirdOfASecond :: "unit state" where
  "thirdOfASecond =
     idle\<lparr>config := defaultConfig\<lparr>duration := 6004799503160661 / 18014398509481984,
                                    fps := 3\<rparr>\<rparr>"

definition zeroDuration :: "unit state" where
  "zeroDuration = idle\<lparr>config := defaultConfig\<lparr>duration := 0\<rparr>\<rparr>"

definition zeroWidth :: "unit state" where
  "zeroWidth = idle\<lparr>config := defaultConfig\<lparr>width := 0, duration := 0\<rparr>\<rparr>"

definition mounted :: "unit state" where
  "mounted = initialState ()"

definition stillLoading :: "unit state" where
  "stillLoading = (initialState ())\<lparr>loading := True\<rparr>"

section \<open>Rounding to binary64 is monotone\<close>

lemma roundHalfEven_close: "\<bar>m - rat_of_int (roundHalfEven m)\<bar> \<le> 1 / 2"
proof -
  have g: "\<bar>m - rat_of_int (if m - rat_of_int f < 1 / 2 then f
      else if 1 / 2 < m - rat_of_int f then f + 1 else if even f then f else f + 1)\<bar> \<le> 1 / 2"
    if "rat_of_int f \<le> m" "m < rat_of_int f + 1" for f
    using that by (auto simp: abs_if)
  show ?thesis unfolding roundHalfEven_def Let_def by (rule g) linarith+
qed

lemma roundHalfEven_nearest: "\<bar>m - rat_of_int (roundHalfEven m)\<bar> \<le> \<bar>m - rat_of_int k\<bar>"
proof (cases "k = roundHalfEven m")
  case True
  then show ?thesis by simp
next
  case False
  then have "1 \<le> \<bar>k - roundHalfEven m\<bar>" by linarith
  then have "1 \<le> \<bar>rat_of_int k - rat_of_int (roundHalfEven m)\<bar>"
    by (metis of_int_abs of_int_diff of_int_le_iff of_int_1)
  with roundHalfEven_close [of m] show ?thesis by linarith
qed

lemma roundHalfEven_bound:
  assumes "\<bar>m\<bar> \<le> rat_of_int b"
  shows "\<bar>roundHalfEven m\<bar> \<le> b"
proof -
  have 1: "\<lfloor>m\<rfloor> \<le> roundHalfEven m" "roundHalfEven m \<le> \<lceil>m\<rceil>"
    by (auto simp: roundHalfEven_def Let_def ceiling_altdef)
  have "- b \<le> \<lfloor>m\<rfloor>" using assms by (simp add: le_floor_iff abs_le_iff)
  moreover have "\<lceil>m\<rceil> \<le> b" using assms by (simp add: ceiling_le_iff abs_le_iff)
  ultimately show ?thesis using 1 by linarith
qed

lemma exponentOf_bounds:
  assumes "x \<noteq> 0"
  shows "2 powi exponentOf x \<le> \<bar>x\<bar>" and "\<bar>x\<bar> < 2 powi (exponentOf x + 1)"
proof -
  have "2 powi exponentOf x \<le> \<bar>x\<bar> \<and> \<bar>x\<bar> < 2 powi (exponentOf x + 1)"
  proof (cases "1 \<le> \<bar>x\<bar>")
    case True
    define n where "n = \<lfloor>\<bar>x\<bar>\<rfloor>"
    have n: "0 < n" using True by (simp add: n_def)
    have e: "exponentOf x = bitlen n - 1" using True by (simp add: exponentOf_def n_def)
    have b: "2 ^ nat (bitlen n - 1) \<le> n" "n < 2 ^ nat (bitlen n)"
      using bitlen_bounds [OF n] by simp_all
    have p: "1 \<le> bitlen n" using n by (auto simp: bitlen_alt_def)
    have "(2::rat) powi (bitlen n - 1) = 2 ^ nat (bitlen n - 1)"
      using p by (simp add: power_int_nonneg_exp)
    also have "\<dots> = rat_of_int (2 ^ nat (bitlen n - 1))" by simp
    also have "\<dots> \<le> rat_of_int n" using b(1) by (simp only: of_int_le_iff)
    also have "\<dots> \<le> \<bar>x\<bar>" by (simp add: n_def)
    finally have lo: "2 powi (bitlen n - 1) \<le> \<bar>x\<bar>" .
    have "\<bar>x\<bar> < rat_of_int (n + 1)" unfolding n_def by linarith
    also have "\<dots> \<le> rat_of_int (2 ^ nat (bitlen n))"
      using b(2) by (simp only: of_int_le_iff)
    also have "\<dots> = 2 powi (bitlen n)" using p by (simp add: power_int_nonneg_exp)
    finally have "\<bar>x\<bar> < 2 powi (bitlen n - 1 + 1)" by simp
    with lo e show ?thesis by simp
  next
    case False
    define c where "c = \<lceil>1 / \<bar>x\<bar>\<rceil>"
    define j where "j = bitlen (c - 1)"
    have x: "0 < \<bar>x\<bar>" "\<bar>x\<bar> < 1" using assms False by auto
    then have i: "1 < 1 / \<bar>x\<bar>" by (simp add: less_divide_eq)
    then have c: "2 \<le> c" unfolding c_def by (simp add: le_ceiling_iff) 
    have e: "exponentOf x = - j" using False by (simp add: exponentOf_def c_def j_def)
    have b: "2 ^ nat (j - 1) \<le> c - 1" "c - 1 < 2 ^ nat j"
      using bitlen_bounds [of "c - 1"] c by (simp_all add: j_def)
    have p: "1 \<le> j" using c by (auto simp: bitlen_alt_def j_def)
    have "1 / \<bar>x\<bar> \<le> rat_of_int c" by (simp add: c_def)
    also have "\<dots> \<le> rat_of_int (2 ^ nat j)" using b(2) by (simp only: of_int_le_iff)
    also have "\<dots> = 2 powi j" using p by (simp add: power_int_nonneg_exp)
    finally have "1 / \<bar>x\<bar> \<le> 2 powi j" .
    then have "1 \<le> 2 powi j * \<bar>x\<bar>" using x by (simp add: divide_le_eq)
    then have lo: "2 powi (- j) \<le> \<bar>x\<bar>"
      by (simp add: power_int_minus field_simps)
    have "rat_of_int (2 ^ nat (j - 1)) \<le> rat_of_int (c - 1)" using b(1) by (simp only: of_int_le_iff)
    also have "\<dots> < 1 / \<bar>x\<bar>" unfolding c_def by (simp add: ) linarith
    finally have "2 powi (j - 1) < 1 / \<bar>x\<bar>" using p by (simp add: power_int_nonneg_exp)
    then have "2 powi (j - 1) * \<bar>x\<bar> < 1" using x by (simp add: less_divide_eq)
    then have "\<bar>x\<bar> < 1 / 2 powi (j - 1)" by (simp add: less_divide_eq mult.commute)
    also have "\<dots> = 2 powi (- (j - 1))" by (simp only: power_int_minus_divide)
    finally have "\<bar>x\<bar> < 2 powi (- j + 1)" by (simp add: algebra_simps)
    with lo e show ?thesis by simp
  qed
  then show "2 powi exponentOf x \<le> \<bar>x\<bar>" and "\<bar>x\<bar> < 2 powi (exponentOf x + 1)" by simp_all
qed

lemma pow2_shift: "(2::rat) powi a = 2 powi (a - b) * 2 powi b"
  by (simp add: power_int_add [symmetric])

lemma ulpOf_pos: "0 < ulpOf x"
  by (simp add: ulpOf_def)

lemma roundToBinary64_grid_nearest:
  "\<bar>x - roundToBinary64 x\<bar> \<le> \<bar>x - rat_of_int k * ulpOf x\<bar>"
proof (cases "x = 0")
  case True
  then show ?thesis by (simp add: roundToBinary64_def)
next
  case False
  define u where "u = ulpOf x"
  have u: "0 < u" by (simp add: u_def ulpOf_pos)
  have "\<bar>x / u - rat_of_int (roundHalfEven (x / u))\<bar> \<le> \<bar>x / u - rat_of_int k\<bar>"
    by (rule roundHalfEven_nearest)
  then have "\<bar>x / u - rat_of_int (roundHalfEven (x / u))\<bar> * u \<le> \<bar>x / u - rat_of_int k\<bar> * u"
    using u by (simp add: mult_right_mono)
  moreover have "\<bar>x / u - a\<bar> * u = \<bar>x - a * u\<bar>" for a
  proof -
    have "\<bar>x / u - a\<bar> * u = \<bar>(x / u - a) * u\<bar>" using u by (simp add: abs_mult)
    also have "(x / u - a) * u = x - a * u" using u by (simp add: field_simps)
    finally show ?thesis .
  qed
  ultimately show ?thesis using False by (simp add: roundToBinary64_def u_def)
qed

lemma roundToBinary64_significand:
  assumes "z \<noteq> 0"
  shows "\<bar>roundHalfEven (z / ulpOf z)\<bar> \<le> 2 ^ 53"
proof -
  define e where "e = max (exponentOf z) (- 1022)"
  have u: "ulpOf z = 2 powi (e - 52)" by (simp add: ulpOf_def e_def)
  have "\<bar>z\<bar> < 2 powi (exponentOf z + 1)" by (rule exponentOf_bounds(2) [OF assms])
  also have "\<dots> \<le> 2 powi (e + 1)" by (rule power_int_increasing) (simp_all add: e_def)
  finally have "\<bar>z\<bar> < 2 powi (e + 1)" .
  moreover have "(2::rat) powi (e + 1) = 2 powi 53 * 2 powi (e - 52)"
    using pow2_shift [of "e + 1" "e - 52"] by simp
  ultimately have "\<bar>z\<bar> < 2 ^ 53 * ulpOf z" by (simp add: u)
  then have "\<bar>z\<bar> / ulpOf z < 2 ^ 53" using ulpOf_pos [of z] by (simp add: divide_less_eq)
  then have "\<bar>z / ulpOf z\<bar> \<le> rat_of_int (2 ^ 53)" using ulpOf_pos [of z] by simp
  then show ?thesis by (rule roundHalfEven_bound)
qed

lemma roundToBinary64_nearest:
  "\<bar>x - roundToBinary64 x\<bar> \<le> \<bar>x - roundToBinary64 z\<bar>"
proof (cases "x = 0 \<or> z = 0")
  case True
  then show ?thesis
  proof
    assume "x = 0" then show ?thesis by (simp add: roundToBinary64_def)
  next
    assume "z = 0"
    then show ?thesis using roundToBinary64_grid_nearest [of x 0] by (simp add: roundToBinary64_def)
  qed
next
  case False
  then have x: "x \<noteq> 0" and z: "z \<noteq> 0" by simp_all
  define ex where "ex = max (exponentOf x) (- 1022)"
  define ez where "ez = max (exponentOf z) (- 1022)"
  define r where "r = roundHalfEven (z / ulpOf z)"
  have ux: "ulpOf x = 2 powi (ex - 52)" by (simp add: ulpOf_def ex_def)
  have uz: "ulpOf z = 2 powi (ez - 52)" by (simp add: ulpOf_def ez_def)
  have fz: "roundToBinary64 z = rat_of_int r * 2 powi (ez - 52)"
    using z by (simp add: roundToBinary64_def r_def uz)
  have r: "\<bar>r\<bar> \<le> 2 ^ 53" unfolding r_def by (rule roundToBinary64_significand [OF z])
  show ?thesis
  proof (cases "ex \<le> ez")
    case True
    have "(2::rat) powi (ez - 52) = 2 powi (ez - ex) * 2 powi (ex - 52)"
      by (simp add: power_int_add [symmetric])
    also have "(2::rat) powi (ez - ex) = rat_of_int (2 ^ nat (ez - ex))"
      using True by (simp add: power_int_nonneg_exp)
    finally have "roundToBinary64 z = rat_of_int (r * 2 ^ nat (ez - ex)) * ulpOf x"
      by (simp add: fz ux)
    then show ?thesis using roundToBinary64_grid_nearest [of x "r * 2 ^ nat (ez - ex)"] by simp
  next
    case False
    then have lt: "ez < ex" by simp
    then have "ex = exponentOf x" by (simp add: ex_def ez_def max_def split: if_splits)
    then have lo: "2 powi ex \<le> \<bar>x\<bar>" using exponentOf_bounds(1) [OF x] by simp
    have "\<bar>roundToBinary64 z\<bar> = rat_of_int \<bar>r\<bar> * 2 powi (ez - 52)"
      by (simp add: fz abs_mult)
    also have "\<dots> \<le> rat_of_int (2 ^ 53) * 2 powi (ez - 52)"
      using r by (intro mult_right_mono) (simp_all only: of_int_le_iff zero_le_power_int zero_le_numeral)
    also have "\<dots> = 2 powi (ez + 1)"
    proof -
      have "(2::rat) powi (ez + 1) = 2 powi 53 * 2 powi (ez - 52)"
        using pow2_shift [of "ez + 1" "ez - 52"] by simp
      then show ?thesis by simp
    qed
    also have "\<dots> \<le> 2 powi ex" using lt by (intro power_int_increasing) simp_all
    finally have small: "\<bar>roundToBinary64 z\<bar> \<le> 2 powi ex" .
    define s :: int where "s = (if 0 < x then 1 else - 1)"
    have g: "rat_of_int (s * 2 ^ 52) * ulpOf x = rat_of_int s * 2 powi ex"
    proof -
      have "(2::rat) powi ex = 2 powi 52 * 2 powi (ex - 52)"
        using pow2_shift [of ex "ex - 52"] by simp
      then show ?thesis by (simp add: ux)
    qed
    have "\<bar>x - rat_of_int s * 2 powi ex\<bar> = \<bar>x\<bar> - 2 powi ex"
      using lo x by (auto simp: s_def abs_if)
    also have "\<dots> \<le> \<bar>x - roundToBinary64 z\<bar>" using small by linarith
    finally have "\<bar>x - rat_of_int (s * 2 ^ 52) * ulpOf x\<bar> \<le> \<bar>x - roundToBinary64 z\<bar>"
      by (simp only: g)
    with roundToBinary64_grid_nearest [of x "s * 2 ^ 52"] show ?thesis by linarith
  qed
qed

lemma roundToBinary64_mono:
  assumes "x \<le> y"
  shows "roundToBinary64 x \<le> roundToBinary64 y"
proof (rule ccontr)
  assume "\<not> roundToBinary64 x \<le> roundToBinary64 y"
  then have lt: "roundToBinary64 y < roundToBinary64 x" by simp
  then have "x \<noteq> y" by auto
  with assms have xy: "x < y" by simp
  from roundToBinary64_nearest [of x y] roundToBinary64_nearest [of y x] lt xy
  show False by (auto simp: abs_if split: if_splits)
qed

text \<open>
  Some products and quotients. The last ones differ from the exact results: after
  frame 29 of 100 the exact progress would be 14.5, which \<open>Math.round\<close> takes to 15,
  and the progress reported is 14; a duration of 1.2 at 30 frames per second gives 36
  frames, although the exact product of the two numbers is below 36; and three times
  the number nearest to a third is 1, although the exact product is below 1.
\<close>

lemma Number_times_examples:
  "Number_times 1 2 = 2" "Number_times 6 30 = 180" "Number_times 0 30 = 0"
  "Number_times (- 1) 30 = - 30"
  "Number_times (Number_divide 1 2) 50 = 25" "Number_times (Number_divide 2 2) 50 = 50"
  by code_simp+

lemma Number_rounding_examples:
  "Math_round (Number_times (Number_divide 29 100) 50) = 14"
  "\<lfloor>Number_times (roundToBinary64 (12 / 10)) 30\<rfloor> = 36"
  "roundToBinary64 (12 / 10) * 30 < 36"
  "roundToBinary64 (1 / 3) = 6004799503160661 / 18014398509481984"
  "Number_times (6004799503160661 / 18014398509481984) 3 = 1"
  by code_simp+

section \<open>Properties of the string operations\<close>

lemma lastIndexOf_absent: "c \<notin> set s \<Longrightarrow> lastIndexOf s c = - 1"
  by (induction s) (auto simp: Let_def)

lemma lastIndexOf_present:
  "c \<in> set s \<Longrightarrow>
     \<exists>pre ext. s = pre @ c # ext \<and> c \<notin> set ext \<and> lastIndexOf s c = int (length pre)"
proof (induction s)
  case Nil
  then show ?case by simp
next
  case (Cons x xs)
  show ?case
  proof (cases "c \<in> set xs")
    case True
    with Cons.IH obtain pre ext
      where d: "xs = pre @ c # ext" "c \<notin> set ext" "lastIndexOf xs c = int (length pre)"
      by blast
    have "x # xs = (x # pre) @ c # ext" using d(1) by simp
    moreover have "lastIndexOf (x # xs) c = int (length (x # pre))"
      using d(3) by (simp add: Let_def)
    ultimately show ?thesis using d(2) by blast
  next
    case False
    with Cons.prems have xc: "x = c" by simp
    have "lastIndexOf (x # xs) c = 0"
      using False xc by (simp add: Let_def lastIndexOf_absent)
    then have "x # xs = [] @ c # xs \<and> c \<notin> set xs \<and> lastIndexOf (x # xs) c = int (length ([]::string))"
      using xc False by simp
    then show ?thesis by blast
  qed
qed

lemma slice_at_prefix: "slice (pre @ rest) (int (length pre)) = rest"
  by (simp add: slice_def Let_def)

text \<open>
  Claim C6. The staged audio file name is \<open>audio_input\<close> followed by the part of the
  original name from its last dot onward (case kept) when the name has a dot, and
  \<open>audio_input.mp3\<close> when it has none; \<open>song.WAV\<close> is staged as \<open>audio_input.WAV\<close>.
\<close>

theorem audio_input_name_extension:
  "(CHR ''.'' \<in> set (name f) \<longrightarrow>
      (\<exists>pre ext. name f = pre @ CHR ''.'' # ext \<and> CHR ''.'' \<notin> set ext \<and>
         audioInputName (Some f) = Some (''audio_input'' @ CHR ''.'' # ext))) \<and>
   (CHR ''.'' \<notin> set (name f) \<longrightarrow> audioInputName (Some f) = Some ''audio_input.mp3'')"
proof (intro conjI impI)
  assume dot: "CHR ''.'' \<in> set (name f)"
  from lastIndexOf_present [OF dot] obtain pre ext
    where d: "name f = pre @ CHR ''.'' # ext" "CHR ''.'' \<notin> set ext"
      "lastIndexOf (name f) CHR ''.'' = int (length pre)"
    by blast
  have "slice (name f) (lastIndexOf (name f) CHR ''.'') = CHR ''.'' # ext"
    using slice_at_prefix [of pre "CHR ''.'' # ext"] d(1) d(3) by simp
  then have "audioInputName (Some f) = Some (''audio_input'' @ CHR ''.'' # ext)"
    using dot by (simp add: audioInputName_def includes_str_def)
  with d(1) d(2)
  show "\<exists>pre ext. name f = pre @ CHR ''.'' # ext \<and> CHR ''.'' \<notin> set ext \<and>
         audioInputName (Some f) = Some (''audio_input'' @ CHR ''.'' # ext)"
    by blast
next
  assume "CHR ''.'' \<notin> set (name f)"
  then show "audioInputName (Some f) = Some ''audio_input.mp3''"
    by (simp add: audioInputName_def includes_str_def)
qed

theorem audio_input_name_extension_witness:
  "audioInputName (Some \<lparr>name = ''song.WAV'', content = []\<rparr>) = Some ''audio_input.WAV'' \<and>
   audioInputName (Some \<lparr>name = ''track'', content = []\<rparr>) = Some ''audio_input.mp3''"
proof -
  have dot: "CHR ''.'' \<in> set (name \<lparr>name = ''song.WAV'', content = []\<rparr>)" by simp
  have nodot: "CHR ''.'' \<notin> set (name \<lparr>name = ''track'', content = []\<rparr>)" by simp
  from audio_input_name_extension [of "\<lparr>name = ''song.WAV'', content = []\<rparr>"] dot
  obtain pre ext where d: "''song.WAV'' = pre @ CHR ''.'' # ext" "CHR ''.'' \<notin> set ext"
    "audioInputName (Some \<lparr>name = ''song.WAV'', content = []\<rparr>)
       = Some (''audio_input'' @ CHR ''.'' # ext)"
    by auto
  have "rev ''song.WAV'' = rev ext @ CHR ''.'' # rev pre" using d(1) by simp
  then have "takeWhile (\<lambda>c. c \<noteq> CHR ''.'') (rev ''song.WAV'') = rev ext"
    using d(2) by (simp add: takeWhile_append)
  then have "ext = ''WAV''" by (simp add: rev_swap [symmetric])
  with d(3) have one: "audioInputName (Some \<lparr>name = ''song.WAV'', content = []\<rparr>)
    = Some ''audio_input.WAV''" by simp
  from audio_input_name_extension [of "\<lparr>name = ''track'', content = []\<rparr>"] nodot
  have two: "audioInputName (Some \<lparr>name = ''track'', content = []\<rparr>) = Some ''audio_input.mp3''"
    by simp
  from one two show ?thesis by simp
qed

section \<open>Steps that make no call of a given kind\<close>

lemma of_kind_append [simp]: "of_kind k (xs @ ys) = of_kind k xs @ of_kind k ys"
  by (simp add: of_kind_def)

lemma of_kind_Nil [simp]: "of_kind k [] = []"
  by (simp add: of_kind_def)

lemma of_kind_Cons [simp]:
  "of_kind k (e # es) = (if kind_of e = k then e # of_kind k es else of_kind k es)"
  by (simp add: of_kind_def)

lemma keeps_refl: "keeps k w w"
  by (simp add: keeps_def)

lemma keeps_trans: "keeps k a b \<Longrightarrow> keeps k b c \<Longrightarrow> keeps k a c"
  by (simp add: keeps_def)

lemma keeps_setStatus: "keeps k w v \<Longrightarrow> k \<noteq> Status \<Longrightarrow> keeps k w (setStatus s v)"
  by (auto simp: keeps_def setStatus_def emit_def)

lemma keeps_setProgress: "keeps k w v \<Longrightarrow> k \<noteq> Progress \<Longrightarrow> keeps k w (setProgress p v)"
  by (auto simp: keeps_def setProgress_def emit_def)

lemma keeps_setError: "keeps k w v \<Longrightarrow> k \<noteq> Failure \<Longrightarrow> keeps k w (setError e v)"
  by (auto simp: keeps_def setError_def emit_def)

lemma keeps_setIsGenerating: "keeps k w v \<Longrightarrow> k \<noteq> Flag \<Longrightarrow> keeps k w (setIsGenerating b v)"
  by (auto simp: keeps_def setIsGenerating_def emit_def)

lemma keeps_ff_deleteFile:
  "keeps k w v \<Longrightarrow> k \<noteq> Storage \<Longrightarrow> keeps k w (snd (ff_deleteFile ff n v))"
  by (auto simp: keeps_def ff_deleteFile_def emit_def split: prod.splits)

lemma keeps_ff_writeFile:
  "keeps k w v \<Longrightarrow> k \<noteq> Storage \<Longrightarrow> keeps k w (snd (ff_writeFile ff n d v))"
  by (auto simp: keeps_def ff_writeFile_def emit_def split: prod.splits)

lemma keeps_ff_readFile:
  "keeps k w v \<Longrightarrow> k \<noteq> Storage \<Longrightarrow> keeps k w (snd (ff_readFile ff n v))"
  by (auto simp: keeps_def ff_readFile_def emit_def split: prod.splits)

lemma keeps_ff_exec:
  "keeps k w v \<Longrightarrow> k \<noteq> Encoder \<Longrightarrow> keeps k w (snd (ff_exec ff args v))"
  by (auto simp: keeps_def ff_exec_def emit_def split: prod.splits)

lemma keeps_emit_OnFrame: "keeps k w v \<Longrightarrow> k \<noteq> Callback \<Longrightarrow> keeps k w (emit (OnFrame i) v)"
  by (auto simp: keeps_def emit_def)

lemma for_loop_rel:
  assumes "\<And>i v. R v (snd (body i v))" and "\<And>v. R v v"
    and "\<And>a b c. R a b \<Longrightarrow> R b c \<Longrightarrow> R a c"
  shows "R w (snd (for_loop n i body w))"
  using assms
proof (induction n i body w rule: for_loop.induct)
  case (1 n i body w)
  show ?case
  proof (cases "int i < n")
    case False
    then show ?thesis using "1.prems"(2) by (simp add: for_loop.simps)
  next
    case True
    obtain r w' where b: "body i w = (r, w')" by force
    have step: "R w w'" using "1.prems"(1) [of w i] b by simp
    show ?thesis
    proof (cases r)
      case (Some e)
      then show ?thesis using True b step by (simp add: for_loop.simps [of n i])
    next
      case None
      have "R w' (snd (for_loop n (Suc i) body w'))"
        using "1.IH" [OF True _ None] b None "1.prems" by simp
      with step have "R w (snd (for_loop n (Suc i) body w'))"
        using "1.prems"(3) by blast
      then show ?thesis using True b None by (simp add: for_loop.simps [of n i])
    qed
  qed
qed

lemma keeps_for_loop:
  assumes "keeps k w v" and "\<And>i u. keeps k u (snd (body i u))"
  shows "keeps k w (snd (for_loop n i body v))"
proof -
  have "keeps k v (snd (for_loop n i body v))"
    by (rule for_loop_rel [where R = "keeps k"]) (auto intro: assms(2) keeps_refl keeps_trans)
  with assms(1) show ?thesis by (rule keeps_trans)
qed

lemma keeps_and_then:
  assumes "keeps k w v" and "\<And>u. keeps k u (snd (f u))" and "\<And>u. keeps k u (snd (g u))"
  shows "keeps k w (snd (and_then f g v))"
proof -
  obtain r v1 where f: "f v = (r, v1)" by force
  have 1: "keeps k v v1" using assms(2) [of v] f by simp
  show ?thesis
  proof (cases r)
    case None
    then have "snd (and_then f g v) = snd (g v1)" using f by (simp add: and_then_def)
    then show ?thesis using assms(1) 1 assms(3) [of v1] by (metis keeps_trans)
  next
    case (Some e)
    then have "snd (and_then f g v) = v1" using f by (simp add: and_then_def)
    then show ?thesis using assms(1) 1 by (metis keeps_trans)
  qed
qed

lemma keeps_prepare:
  assumes "k \<notin> {Flag, Failure, Progress, Status, Storage}"
  shows "keeps k w (prepare ff n pad a w)"
  using assms unfolding prepare_def Let_def swallow_def
  by (auto split: option.splits
      intro!: keeps_ff_deleteFile keeps_for_loop keeps_setStatus keeps_setProgress keeps_setError
        keeps_setIsGenerating keeps_refl)

lemma keeps_onFrame:
  assumes "k \<notin> {Callback, Storage, Progress}"
  shows "keeps k w (snd (onFrame env ff n pad i blob w))"
  using assms unfolding onFrame_def Let_def
  by (auto split: sum.splits
      intro!: keeps_and_then keeps_ff_writeFile keeps_emit_OnFrame keeps_setProgress keeps_refl)

lemma renderFrames_invalid:
  "configError env cfg = Some e \<Longrightarrow>
     renderFrames env ff cfg n pad w = (Some e, setStatus ''Rendering frames'' w)"
  by (simp add: renderFrames_def generateFrames_def)

lemma renderFrames_valid:
  "configError env cfg = None \<Longrightarrow>
     renderFrames env ff cfg n pad w =
       for_loop n 0
         (\<lambda>i v. case renderFrame env cfg i n of
                   Inl e \<Rightarrow> (Some e, v)
                 | Inr blob \<Rightarrow> onFrame env ff n pad i blob v)
         (setStatus ''Rendering frames'' w)"
  by (simp add: renderFrames_def generateFrames_def)

lemma keeps_renderFrames:
  assumes "k \<notin> {Status, Callback, Storage, Progress}"
  shows "keeps k w (snd (renderFrames env ff cfg n pad w))"
proof (cases "configError env cfg")
  case None
  show ?thesis
    using assms unfolding renderFrames_valid [OF None]
    by (auto split: sum.splits
        intro!: keeps_for_loop keeps_onFrame keeps_setStatus keeps_refl)
next
  case (Some e)
  show ?thesis
    using assms unfolding renderFrames_invalid [OF Some]
    by (auto intro!: keeps_setStatus keeps_refl)
qed

lemma keeps_stageAudio:
  assumes "k \<notin> {Status, Storage}"
  shows "keeps k w (snd (stageAudio env ff a f w))"
  using assms unfolding stageAudio_def Let_def
  by (auto split: sum.splits option.splits
      intro!: keeps_ff_writeFile keeps_setStatus keeps_refl)

lemma keeps_encode:
  assumes "k \<notin> {Status, Encoder, Progress}"
  shows "keeps k w (snd (encode env ff cfg pat a w))"
  using assms unfolding encode_def
  by (auto intro!: keeps_and_then keeps_ff_exec keeps_setStatus keeps_setProgress keeps_refl)

lemma keeps_finalize_failed:
  assumes "k \<noteq> Storage" and "fst (finalize ff w) = Some e"
  shows "keeps k w (snd (finalize ff w))"
proof -
  obtain r w1 where rd: "ff_readFile ff ''output.mp4'' w = (r, w1)" by force
  have 1: "keeps k w w1" using keeps_ff_readFile [OF keeps_refl assms(1), of w ff "''output.mp4''"] rd by simp
  show ?thesis using assms(2) rd 1
    by (cases r) (auto simp: finalize_def Let_def split: prod.splits)
qed

lemma keeps_finalize:
  assumes "k \<notin> {Storage, Handle, Progress, Status}"
  shows "keeps k w (snd (finalize ff w))"
proof -
  obtain r w1 where rd: "ff_readFile ff ''output.mp4'' w = (r, w1)" by force
  have 1: "keeps k w w1" using keeps_ff_readFile [OF keeps_refl, of k w ff "''output.mp4''"] rd assms by simp
  show ?thesis
  proof (cases r)
    case (Inl e)
    then show ?thesis using rd 1 by (simp add: finalize_def)
  next
    case (Inr d)
    have "keeps k w1 (snd (finalize ff w))"
      using assms rd Inr
      by (auto simp: finalize_def Let_def createObjectURL_def publishPreviewUrl_def
          revokeObjectURL_def setPreviewUrl_def setStatus_def setProgress_def emit_def keeps_def
          split: option.splits)
    with 1 show ?thesis by (rule keeps_trans)
  qed
qed

section \<open>The calls made by each step\<close>

lemma String_nat_5: "String_nat 5 = ''5''"
  by (simp add: String_nat.simps digit_char_def)

lemma for_loop_done: "n \<le> int i \<Longrightarrow> for_loop n i body w = (None, w)"
  by (simp add: for_loop.simps)

lemma for_loop_trace:
  assumes "\<And>k v v'. body k v = (None, v') \<Longrightarrow> trace v' = trace v @ evs k"
    and "for_loop n i body w = (None, w')"
  shows "trace w' = trace w @ concat (map evs [i ..< nat n])"
  using assms
proof (induction n i body w rule: for_loop.induct)
  case (1 n i body w)
  show ?case
  proof (cases "int i < n")
    case False
    then have weq: "w' = w" using "1.prems"(2) by (simp add: for_loop.simps)
    have "nat n \<le> i" using False by linarith
    then have e: "[i ..< nat n] = []" by simp
    show ?thesis by (simp add: e weq)
  next
    case True
    obtain r v where b: "body i w = (r, v)" by force
    have rn: "r = None"
      using "1.prems"(2) True b by (cases r) (simp_all add: for_loop.simps [of n i])
    then have rest: "for_loop n (Suc i) body v = (None, w')"
      using "1.prems"(2) True b by (simp add: for_loop.simps [of n i])
    have "trace w' = trace v @ concat (map evs [Suc i ..< nat n])"
      using "1.IH" [OF True _ rn] b rn "1.prems"(1) rest by simp
    moreover have "trace v = trace w @ evs i" using "1.prems"(1) b rn by simp
    moreover have "[i ..< nat n] = i # [Suc i ..< nat n]"
      using True by (simp add: upt_conv_Cons)
    ultimately show ?thesis by simp
  qed
qed

lemma for_loop_total:
  assumes "\<And>k v. fst (body k v) = None"
  shows "fst (for_loop n i body w) = None"
  using assms
proof (induction n i body w rule: for_loop.induct)
  case (1 n i body w)
  show ?case
  proof (cases "int i < n")
    case False
    then show ?thesis by (simp add: for_loop.simps)
  next
    case True
    obtain r v where b: "body i w = (r, v)" by force
    have rn: "r = None" using "1.prems" [of i w] b by simp
    have "fst (for_loop n (Suc i) body v) = None"
      using "1.IH" [OF True _ rn] b rn "1.prems" by simp
    then show ?thesis using True b rn by (simp add: for_loop.simps [of n i])
  qed
qed

lemma trace_ff_deleteFile: "trace (snd (ff_deleteFile ff n w)) = trace w @ [DeleteFile n]"
  by (simp add: ff_deleteFile_def emit_def split: prod.splits)

lemma prepare_trace:
  "trace (prepare ff n pad a w) =
     trace w @ [SetIsGenerating True, SetError None, SetProgress None,
                SetStatus ''Preparing workspace'', DeleteFile ''output.mp4'']
       @ map (\<lambda>i. DeleteFile (frameFileName i pad)) [0 ..< nat n]
       @ (case a of Some x \<Rightarrow> [DeleteFile x] | None \<Rightarrow> [])"
proof -
  define w1 where "w1 = setStatus ''Preparing workspace''
                 (setProgress None (setError None (setIsGenerating True w)))"
  define w2 where "w2 = swallow (ff_deleteFile ff ''output.mp4'') w1"
  define body where "body = (\<lambda>i v. (None :: exn option, swallow (ff_deleteFile ff (frameFileName i pad)) v))"
  define w3 where "w3 = snd (for_loop n 0 body w2)"
  have t1: "trace w1 = trace w @ [SetIsGenerating True, SetError None, SetProgress None,
                SetStatus ''Preparing workspace'']"
    by (simp add: w1_def setStatus_def setProgress_def setError_def setIsGenerating_def emit_def)
  have t2: "trace w2 = trace w1 @ [DeleteFile ''output.mp4'']"
    by (simp add: w2_def swallow_def trace_ff_deleteFile)
  have "fst (for_loop n 0 body w2) = None"
    by (rule for_loop_total) (simp add: body_def)
  then have l: "for_loop n 0 body w2 = (None, w3)"
    by (simp add: w3_def prod_eq_iff)
  have "trace w3 = trace w2 @ concat (map (\<lambda>i. [DeleteFile (frameFileName i pad)]) [0 ..< nat n])"
    by (rule for_loop_trace [OF _ l]) (auto simp: body_def swallow_def trace_ff_deleteFile)
  then have t3: "trace w3 = trace w2 @ map (\<lambda>i. DeleteFile (frameFileName i pad)) [0 ..< nat n]"
    by (simp add: concat_map_singleton)
  have "prepare ff n pad a w = (case a of Some x \<Rightarrow> swallow (ff_deleteFile ff x) w3 | None \<Rightarrow> w3)"
    by (cases a) (simp_all add: prepare_def Let_def w1_def w2_def w3_def body_def)
  then show ?thesis
    using t1 t2 t3 by (simp add: swallow_def trace_ff_deleteFile split: option.splits)
qed

lemma onFrame_trace:
  "onFrame env ff n pad i blob v = (None, v') \<Longrightarrow>
     trace v' = trace v @ [OnFrame i, WriteFile (frameFileName i pad),
        SetProgress (Some (frameProgress i n))]"
  by (auto simp: onFrame_def Let_def and_then_def ff_writeFile_def setProgress_def emit_def
      split: sum.splits prod.splits option.splits)

lemma renderFrames_trace:
  assumes "renderFrames env ff cfg n pad w = (None, w')"
  shows "trace w' = trace w @ SetStatus ''Rendering frames'' #
     concat (map (\<lambda>i. [OnFrame i, WriteFile (frameFileName i pad),
        SetProgress (Some (frameProgress i n))]) [0 ..< nat n])"
proof -
  have "trace w' = trace (setStatus ''Rendering frames'' w) @
     concat (map (\<lambda>i. [OnFrame i, WriteFile (frameFileName i pad),
        SetProgress (Some (frameProgress i n))]) [0 ..< nat n])"
  proof (cases "configError env cfg")
    case None
    show ?thesis
      by (rule for_loop_trace [OF _ assms [unfolded renderFrames_valid [OF None]]])
        (auto split: sum.splits dest: onFrame_trace)
  next
    case (Some e)
    then show ?thesis using assms by (simp add: renderFrames_invalid)
  qed
  then show ?thesis by (simp add: setStatus_def emit_def)
qed

lemma stageAudio_trace:
  assumes "stageAudio env ff (audioInputName audio) audio w = (None, w')"
  shows "trace w' = trace w @
     (case audioInputName audio of
        Some a \<Rightarrow> [SetStatus ''Transcoding audio'', WriteFile a] | None \<Rightarrow> [])"
  using assms
  by (auto simp: stageAudio_def Let_def audioInputName_def ff_writeFile_def setStatus_def emit_def
      split: option.splits sum.splits prod.splits)

lemma encode_trace:
  assumes "encode env ff cfg pat a w = (None, w')"
  shows "trace w' = trace w @ [SetStatus ''Encoding video'',
     Exec (command (numberToString env (fps cfg)) pat a), SetProgress (Some 90),
     SetStatus ''Finalizing'']"
  using assms
  by (auto simp: encode_def and_then_def ff_exec_def setStatus_def setProgress_def emit_def
      split: option.splits prod.splits)

lemma encode_exec:
  "of_kind Encoder (trace (snd (encode env ff cfg pat a w))) =
     of_kind Encoder (trace w) @ [Exec (command (numberToString env (fps cfg)) pat a)]"
  by (auto simp: encode_def and_then_def ff_exec_def setStatus_def setProgress_def emit_def
      split: option.splits prod.splits)

lemma finalize_done:
  assumes "finalize ff w = (None, w')"
  shows "trace w' = trace w @ [ReadFile ''output.mp4'', CreateObjectURL (BlobUrl (nextUrl w))]
       @ (case previewUrl w of Some old \<Rightarrow> [RevokeObjectURL old] | None \<Rightarrow> [])
       @ [SetPreviewUrl (Some (BlobUrl (nextUrl w))), SetProgress (Some 100), SetStatus ''Done'']"
    and "previewUrl w' = Some (BlobUrl (nextUrl w))"
    and "nextUrl w' = Suc (nextUrl w)"
    and "status w' = ''Done''" and "progress w' = Some 100"
    and "error w' = error w" and "isGenerating w' = isGenerating w"
  using assms
  by (auto simp: finalize_def Let_def ff_readFile_def createObjectURL_def publishPreviewUrl_def
      revokeObjectURL_def setPreviewUrl_def setStatus_def setProgress_def emit_def
      split: option.splits prod.splits sum.splits if_splits)

lemma finalize_done_dom:
  assumes "finalize ff w = (None, w')" and "previewUrl w \<noteq> Some (BlobUrl (nextUrl w))"
  shows "dom (objectUrls w') =
     insert (BlobUrl (nextUrl w)) (dom (objectUrls w) - set_option (previewUrl w))"
  using assms
  by (auto simp: finalize_def Let_def ff_readFile_def createObjectURL_def publishPreviewUrl_def
      revokeObjectURL_def setPreviewUrl_def setStatus_def setProgress_def emit_def
      split: option.splits prod.splits sum.splits if_splits)

section \<open>The body of the attempt as a whole\<close>

lemma tryBody_cases [consumes 1, case_names frames audio encode finalize]:
  assumes "tryBody env ff w = (r, w')"
  obtains
    e where "r = Some e"
      and "renderFrames env ff (config w) (frameCount w) 5 (prepared ff w) = (Some e, w')"
  | e w2 where "r = Some e"
      and "renderFrames env ff (config w) (frameCount w) 5 (prepared ff w) = (None, w2)"
      and "stageAudio env ff (audioName w) (audioFile w) w2 = (Some e, w')"
  | e w2 w3 where "r = Some e"
      and "renderFrames env ff (config w) (frameCount w) 5 (prepared ff w) = (None, w2)"
      and "stageAudio env ff (audioName w) (audioFile w) w2 = (None, w3)"
      and "encode env ff (config w) ''frame_%05d.png'' (audioName w) w3 = (Some e, w')"
  | w2 w3 w4 where
      "renderFrames env ff (config w) (frameCount w) 5 (prepared ff w) = (None, w2)"
      and "stageAudio env ff (audioName w) (audioFile w) w2 = (None, w3)"
      and "encode env ff (config w) ''frame_%05d.png'' (audioName w) w3 = (None, w4)"
      and "finalize ff w4 = (r, w')"
  using assms
  by (auto simp: tryBody_def Let_def and_then_def String_nat_5 split: prod.splits option.splits)

lemma step_renderFrames:
  assumes "keeps k w v" and "renderFrames env ff cfg n pad v = (r, v')"
    and "k \<notin> {Status, Callback, Storage, Progress}"
  shows "keeps k w v'"
  using keeps_trans [OF assms(1) keeps_renderFrames [OF assms(3), of v env ff cfg n pad]] assms(2)
  by simp

lemma step_stageAudio:
  assumes "keeps k w v" and "stageAudio env ff a f v = (r, v')" and "k \<notin> {Status, Storage}"
  shows "keeps k w v'"
  using keeps_trans [OF assms(1) keeps_stageAudio [OF assms(3), of v env ff a f]] assms(2)
  by simp

lemma step_encode:
  assumes "keeps k w v" and "encode env ff cfg pat a v = (r, v')"
    and "k \<notin> {Status, Encoder, Progress}"
  shows "keeps k w v'"
  using keeps_trans [OF assms(1) keeps_encode [OF assms(3), of v env ff cfg pat a]] assms(2)
  by simp

lemma step_finalize:
  assumes "keeps k w v" and "finalize ff v = (r, v')"
    and "k \<notin> {Storage, Handle, Progress, Status}"
  shows "keeps k w v'"
  using keeps_trans [OF assms(1) keeps_finalize [OF assms(3), of v ff]] assms(2)
  by simp

lemma step_finalize_failed:
  assumes "keeps k w v" and "finalize ff v = (Some e, v')" and "k \<noteq> Storage"
  shows "keeps k w v'"
  using keeps_trans [OF assms(1) keeps_finalize_failed [OF assms(3), of ff v e]] assms(2)
  by simp

lemma tryBody_keeps_Input: "keeps Input w (snd (tryBody env ff w))"
proof -
  obtain r w' where t: "tryBody env ff w = (r, w')" by force
  have p: "keeps Input w (prepared ff w)" by (rule keeps_prepare) simp
  from t have "keeps Input w w'"
  proof (cases rule: tryBody_cases)
    case (frames e)
    show ?thesis by (rule step_renderFrames [OF p frames(2)]) simp
  next
    case (audio e w2)
    have 2: "keeps Input w w2"
      by (rule step_renderFrames [OF p audio(2)]) simp
    show ?thesis by (rule step_stageAudio [OF 2 audio(3)]) simp
  next
    case (encode e w2 w3)
    have 2: "keeps Input w w2"
      by (rule step_renderFrames [OF p encode(2)]) simp
    have 3: "keeps Input w w3"
      by (rule step_stageAudio [OF 2 encode(3)]) simp
    show ?thesis by (rule step_encode [OF 3 encode(4)]) simp
  next
    case (finalize w2 w3 w4)
    have 2: "keeps Input w w2"
      by (rule step_renderFrames [OF p finalize(1)]) simp
    have 3: "keeps Input w w3"
      by (rule step_stageAudio [OF 2 finalize(2)]) simp
    have 4: "keeps Input w w4"
      by (rule step_encode [OF 3 finalize(3)]) simp
    show ?thesis by (rule step_finalize [OF 4 finalize(4)]) simp
  qed
  with t show ?thesis by simp
qed

lemma tryBody_failed_keeps_Handle:
  assumes "tryBody env ff w = (Some e, w')"
  shows "keeps Handle w w'"
proof -
  have p: "keeps Handle w (prepared ff w)" by (rule keeps_prepare) simp
  from assms show ?thesis
  proof (cases rule: tryBody_cases)
    case (frames e)
    show ?thesis by (rule step_renderFrames [OF p frames(2)]) simp
  next
    case (audio e w2)
    have 2: "keeps Handle w w2"
      by (rule step_renderFrames [OF p audio(2)]) simp
    show ?thesis by (rule step_stageAudio [OF 2 audio(3)]) simp
  next
    case (encode e w2 w3)
    have 2: "keeps Handle w w2"
      by (rule step_renderFrames [OF p encode(2)]) simp
    have 3: "keeps Handle w w3"
      by (rule step_stageAudio [OF 2 encode(3)]) simp
    show ?thesis by (rule step_encode [OF 3 encode(4)]) simp
  next
    case (finalize w2 w3 w4)
    have 2: "keeps Handle w w2"
      by (rule step_renderFrames [OF p finalize(1)]) simp
    have 3: "keeps Handle w w3"
      by (rule step_stageAudio [OF 2 finalize(2)]) simp
    have 4: "keeps Handle w w4"
      by (rule step_encode [OF 3 finalize(3)]) simp
    show ?thesis by (rule step_finalize_failed [OF 4 finalize(4)]) simp
  qed
qed

lemma prepare_raises_flag:
  "isGenerating (prepare ff n pad a w) \<and>
   of_kind Flag (trace (prepare ff n pad a w)) = of_kind Flag (trace w) @ [SetIsGenerating True]"
proof -
  define w1 where "w1 = setIsGenerating True w"
  have 1: "isGenerating w1" "of_kind Flag (trace w1) = of_kind Flag (trace w) @ [SetIsGenerating True]"
    by (simp_all add: w1_def setIsGenerating_def emit_def)
  have "keeps Flag w1 (prepare ff n pad a w)"
    unfolding prepare_def Let_def swallow_def w1_def
    by (auto split: option.splits
        intro!: keeps_ff_deleteFile keeps_for_loop keeps_setStatus keeps_setProgress keeps_setError
          keeps_refl)
  with 1 show ?thesis by (simp add: keeps_def)
qed

lemma tryBody_flag:
  "isGenerating (snd (tryBody env ff w)) \<and>
   of_kind Flag (trace (snd (tryBody env ff w))) = of_kind Flag (trace w) @ [SetIsGenerating True]"
proof -
  obtain r w' where t: "tryBody env ff w = (r, w')" by force
  have p: "keeps Flag (prepared ff w) (prepared ff w)" by (rule keeps_refl)
  from t have "keeps Flag (prepared ff w) w'"
  proof (cases rule: tryBody_cases)
    case (frames e)
    show ?thesis by (rule step_renderFrames [OF p frames(2)]) simp
  next
    case (audio e w2)
    have 2: "keeps Flag (prepared ff w) w2"
      by (rule step_renderFrames [OF p audio(2)]) simp
    show ?thesis by (rule step_stageAudio [OF 2 audio(3)]) simp
  next
    case (encode e w2 w3)
    have 2: "keeps Flag (prepared ff w) w2"
      by (rule step_renderFrames [OF p encode(2)]) simp
    have 3: "keeps Flag (prepared ff w) w3"
      by (rule step_stageAudio [OF 2 encode(3)]) simp
    show ?thesis by (rule step_encode [OF 3 encode(4)]) simp
  next
    case (finalize w2 w3 w4)
    have 2: "keeps Flag (prepared ff w) w2"
      by (rule step_renderFrames [OF p finalize(1)]) simp
    have 3: "keeps Flag (prepared ff w) w3"
      by (rule step_stageAudio [OF 2 finalize(2)]) simp
    have 4: "keeps Flag (prepared ff w) w4"
      by (rule step_encode [OF 3 finalize(3)]) simp
    show ?thesis by (rule step_finalize [OF 4 finalize(4)]) simp
  qed
  with t prepare_raises_flag [of ff "frameCount w" 5 "audioName w" w]
  show ?thesis by (simp add: keeps_def)
qed

lemma tryBody_exec:
  assumes "tryBody env ff w = (r, w')"
  shows "of_kind Encoder (trace w') = of_kind Encoder (trace w) \<and> r \<noteq> None \<or>
         of_kind Encoder (trace w') = of_kind Encoder (trace w) @ [Exec (encoderArgs env w)]"
proof -
  have p: "keeps Encoder w (prepared ff w)" by (rule keeps_prepare) simp
  from assms show ?thesis
  proof (cases rule: tryBody_cases)
    case (frames e)
    have "keeps Encoder w w'"
      by (rule step_renderFrames [OF p frames(2)]) simp
    then show ?thesis using frames(1) by (simp add: keeps_def)
  next
    case (audio e w2)
    have 2: "keeps Encoder w w2"
      by (rule step_renderFrames [OF p audio(2)]) simp
    have "keeps Encoder w w'"
      by (rule step_stageAudio [OF 2 audio(3)]) simp
    then show ?thesis using audio(1) by (simp add: keeps_def)
  next
    case (encode e w2 w3)
    have 2: "keeps Encoder w w2"
      by (rule step_renderFrames [OF p encode(2)]) simp
    have 3: "keeps Encoder w w3"
      by (rule step_stageAudio [OF 2 encode(3)]) simp
    have "of_kind Encoder (trace w') = of_kind Encoder (trace w3) @ [Exec (encoderArgs env w)]"
      using encode_exec [of env ff "config w" "''frame_%05d.png''" "audioName w" w3] encode(4)
      by simp
    then show ?thesis using 3 by (simp add: keeps_def)
  next
    case (finalize w2 w3 w4)
    have 2: "keeps Encoder w w2"
      by (rule step_renderFrames [OF p finalize(1)]) simp
    have 3: "keeps Encoder w w3"
      by (rule step_stageAudio [OF 2 finalize(2)]) simp
    have 4: "of_kind Encoder (trace w4) = of_kind Encoder (trace w3) @ [Exec (encoderArgs env w)]"
      using encode_exec [of env ff "config w" "''frame_%05d.png''" "audioName w" w3] finalize(3)
      by simp
    have "keeps Encoder w4 w'"
      by (rule step_finalize [OF keeps_refl finalize(4)]) simp
    then show ?thesis using 3 4 by (simp add: keeps_def)
  qed
qed

lemma keeps_prepare_opened:
  assumes "k \<noteq> Storage"
  shows "keeps k (setStatus ''Preparing workspace''
                   (setProgress None (setError None (setIsGenerating True w))))
           (prepare ff n pad a w)"
  using assms unfolding prepare_def Let_def swallow_def
  by (auto split: option.splits intro!: keeps_ff_deleteFile keeps_for_loop keeps_refl)

lemma prepare_opens:
  "isGenerating (prepare ff n pad a w)" "error (prepare ff n pad a w) = None"
  using keeps_prepare_opened [of Flag w ff n pad a] keeps_prepare_opened [of Failure w ff n pad a]
  by (simp_all add: keeps_def setStatus_def setProgress_def setError_def setIsGenerating_def
      emit_def)

lemma tryBody_success:
  assumes "tryBody env ff w = (None, w')"
  shows "trace w' = trace w @ successfulCalls env w"
    and "previewUrl w' = Some (BlobUrl (nextUrl w))"
    and "nextUrl w' = Suc (nextUrl w)"
    and "status w' = ''Done''" and "progress w' = Some 100" and "error w' = None"
    and "previewUrl w \<noteq> Some (BlobUrl (nextUrl w)) \<Longrightarrow>
         dom (objectUrls w') =
           insert (BlobUrl (nextUrl w)) (dom (objectUrls w) - set_option (previewUrl w))"
proof -
  from assms obtain w2 w3 w4 where
    f: "renderFrames env ff (config w) (frameCount w) 5 (prepared ff w) = (None, w2)"
    and a: "stageAudio env ff (audioName w) (audioFile w) w2 = (None, w3)"
    and e: "encode env ff (config w) ''frame_%05d.png'' (audioName w) w3 = (None, w4)"
    and z: "finalize ff w4 = (None, w')"
    by (cases rule: tryBody_cases) simp_all
  have h1: "keeps Handle w (prepared ff w)" by (rule keeps_prepare) simp
  have h2: "keeps Handle w w2" by (rule step_renderFrames [OF h1 f]) simp
  have h3: "keeps Handle w w3" by (rule step_stageAudio [OF h2 a]) simp
  have h4: "keeps Handle w w4" by (rule step_encode [OF h3 e]) simp
  have e2: "keeps Failure (prepared ff w) w2" by (rule step_renderFrames [OF keeps_refl f]) simp
  have e3: "keeps Failure (prepared ff w) w3" by (rule step_stageAudio [OF e2 a]) simp
  have e4: "keeps Failure (prepared ff w) w4" by (rule step_encode [OF e3 e]) simp
  have same: "previewUrl w4 = previewUrl w" "nextUrl w4 = nextUrl w" "objectUrls w4 = objectUrls w"
    using h4 by (simp_all add: keeps_def)
  show "trace w' = trace w @ successfulCalls env w"
    using prepare_trace [of ff "frameCount w" 5 "audioName w" w] renderFrames_trace [OF f]
      stageAudio_trace [OF a] encode_trace [OF e] finalize_done(1) [OF z] same
    by (simp add: successfulCalls_def)
  show "previewUrl w' = Some (BlobUrl (nextUrl w))" using finalize_done(2) [OF z] same by simp
  show "nextUrl w' = Suc (nextUrl w)" using finalize_done(3) [OF z] same by simp
  show "status w' = ''Done''" by (rule finalize_done(4) [OF z])
  show "progress w' = Some 100" by (rule finalize_done(5) [OF z])
  show "error w' = None"
    using finalize_done(6) [OF z] e4 prepare_opens(2) [of ff "frameCount w" 5 "audioName w" w]
    by (simp add: keeps_def)
  show "dom (objectUrls w') =
           insert (BlobUrl (nextUrl w)) (dom (objectUrls w) - set_option (previewUrl w))"
    if "previewUrl w \<noteq> Some (BlobUrl (nextUrl w))"
    using finalize_done_dom [OF z] that same by simp
qed

lemma of_kind_map:
  assumes "\<And>x. kind_of (f x) = k'"
  shows "of_kind k (map f xs) = (if k' = k then map f xs else [])"
  using assms by (induction xs) auto

lemma of_kind_concat_map:
  "of_kind k (concat (map g xs)) = concat (map (\<lambda>x. of_kind k (g x)) xs)"
  by (induction xs) auto

lemma successfulCalls_Status:
  "of_kind Status (successfulCalls env w) =
     map SetStatus ([''Preparing workspace'', ''Rendering frames'']
       @ (case audioName w of Some a \<Rightarrow> [''Transcoding audio''] | None \<Rightarrow> [])
       @ [''Encoding video'', ''Finalizing'', ''Done''])"
  by (simp add: successfulCalls_def of_kind_map [where k' = Storage] of_kind_concat_map
      split: option.splits)

lemma successfulCalls_Progress:
  "of_kind Progress (successfulCalls env w) =
     SetProgress None #
     map (\<lambda>i. SetProgress (Some (frameProgress i (frameCount w)))) [0 ..< nat (frameCount w)]
     @ [SetProgress (Some 90), SetProgress (Some 100)]"
  by (simp add: successfulCalls_def of_kind_map [where k' = Storage] of_kind_concat_map
      concat_map_singleton split: option.splits)

lemma successfulCalls_Handle:
  "of_kind Handle (successfulCalls env w) =
     CreateObjectURL (BlobUrl (nextUrl w))
     # (case previewUrl w of Some oldUrl \<Rightarrow> [RevokeObjectURL oldUrl] | None \<Rightarrow> [])
     @ [SetPreviewUrl (Some (BlobUrl (nextUrl w)))]"
  by (simp add: successfulCalls_def of_kind_map [where k' = Storage] of_kind_concat_map
      split: option.splits)

section \<open>When the attempt raises\<close>

lemma ff_writeFile_result: "fst (ff_writeFile ff n d v) = fst (writeFile ff n d (fs v))"
  by (simp add: ff_writeFile_def split: prod.splits)

lemma onFrame_no_raise:
  assumes "\<And>b. \<not> isl (fetchFile env b)" and "\<And>n d s. fst (writeFile ff n d s) = None"
  shows "fst (onFrame env ff n pad i blob v) = None"
proof -
  obtain d where d: "fetchFile env blob = Inr d"
    using assms(1) [of blob] by (cases "fetchFile env blob") simp_all
  have "fst (ff_writeFile ff (frameFileName i pad) d (emit (OnFrame i) v)) = None"
    by (simp add: ff_writeFile_result assms(2))
  then show ?thesis using d
    by (auto simp: onFrame_def Let_def and_then_def split: prod.splits option.splits)
qed

lemma renderFrames_no_raise:
  assumes "\<And>c i n. \<not> isl (renderFrame env c i n)" and "\<And>b. \<not> isl (fetchFile env b)"
    and "\<And>n d s. fst (writeFile ff n d s) = None"
    and "configError env cfg = None"
  shows "fst (renderFrames env ff cfg n pad v) = None"
  unfolding renderFrames_valid [OF assms(4)]
proof (rule for_loop_total)
  fix k u
  obtain b where "renderFrame env cfg k n = Inr b"
    using assms(1) [of cfg k n] by (cases "renderFrame env cfg k n") simp_all
  then show "fst (case renderFrame env cfg k n of Inl e \<Rightarrow> (Some e, u)
                  | Inr blob \<Rightarrow> onFrame env ff n pad k blob u) = None"
    using onFrame_no_raise [OF assms(2) assms(3)] by simp
qed

lemma stageAudio_no_raise:
  assumes "\<And>b. \<not> isl (fetchFile env b)" and "\<And>n d s. fst (writeFile ff n d s) = None"
  shows "fst (stageAudio env ff a f v) = None"
proof (cases f)
  case None
  then show ?thesis by (simp add: stageAudio_def split: option.splits)
next
  case (Some x)
  obtain d where d: "fetchFile env (content x) = Inr d"
    using assms(1) [of "content x"] by (cases "fetchFile env (content x)") simp_all
  show ?thesis using d Some
    by (simp add: stageAudio_def Let_def ff_writeFile_result assms(2) split: option.splits)
qed

lemma encode_result: "fst (encode env ff cfg pat a v) =
    fst (exec ff (command (numberToString env (fps cfg)) pat a) (fs v))"
  by (auto simp: encode_def and_then_def ff_exec_def setStatus_def emit_def
      split: prod.splits option.splits)

lemma finalize_result: "fst (finalize ff v) =
    (case fst (readFile ff ''output.mp4'' (fs v)) of Inl e \<Rightarrow> Some e | Inr d \<Rightarrow> None)"
  by (auto simp: finalize_def ff_readFile_def Let_def split: prod.splits sum.splits)

lemma tryBody_no_raise:
  assumes "\<And>c i n. \<not> isl (renderFrame env c i n)" and "\<And>b. \<not> isl (fetchFile env b)"
    and "\<And>n d s. fst (writeFile ff n d s) = None"
    and "\<And>a s. fst (exec ff a s) = None"
    and "\<And>s. \<not> isl (fst (readFile ff ''output.mp4'' s))"
    and valid: "configError env (config w) = None"
  shows "fst (tryBody env ff w) = None"
proof -
  obtain r w' where t: "tryBody env ff w = (r, w')" by force
  from t have "r = None"
  proof (cases rule: tryBody_cases)
    case (frames e)
    then show ?thesis
      using renderFrames_no_raise [OF assms(1-3) valid, of "frameCount w" 5 "prepared ff w"]
      by simp
  next
    case (audio e w2)
    then show ?thesis
      using stageAudio_no_raise [OF assms(2,3), of "audioName w" "audioFile w" w2] by simp
  next
    case (encode e w2 w3)
    then show ?thesis
      using encode_result [of env ff "config w" "''frame_%05d.png''" "audioName w" w3] assms(4)
      by simp
  next
    case (finalize w2 w3 w4)
    then show ?thesis
      using finalize_result [of ff w4] assms(5) [of "fs w4"]
      by (cases "fst (readFile ff ''output.mp4'' (fs w4))") simp_all
  qed
  with t show ?thesis by simp
qed

lemma tryBody_encoder_raises:
  assumes "\<And>c i n. \<not> isl (renderFrame env c i n)" and "\<And>b. \<not> isl (fetchFile env b)"
    and "\<And>n d s. fst (writeFile ff n d s) = None"
    and "\<And>a s. fst (exec ff a s) = Some e"
    and valid: "configError env (config w) = None"
  shows "fst (tryBody env ff w) = Some e"
proof -
  obtain r w' where t: "tryBody env ff w = (r, w')" by force
  from t have "r = Some e"
  proof (cases rule: tryBody_cases)
    case (frames e)
    then show ?thesis
      using renderFrames_no_raise [OF assms(1-3) valid, of "frameCount w" 5 "prepared ff w"]
      by simp
  next
    case (audio e w2)
    then show ?thesis
      using stageAudio_no_raise [OF assms(2,3), of "audioName w" "audioFile w" w2] by simp
  next
    case (encode e' w2 w3)
    then show ?thesis
      using encode_result [of env ff "config w" "''frame_%05d.png''" "audioName w" w3] assms(4)
      by simp
  next
    case (finalize w2 w3 w4)
    then show ?thesis
      using encode_result [of env ff "config w" "''frame_%05d.png''" "audioName w" w3] assms(4)
      by simp
  qed
  with t show ?thesis by simp
qed


lemma tryBody_frames_raise:
  assumes "renderFrames env ff (config w) (frameCount w) 5 (prepared ff w) = (Some e, v)"
  shows "tryBody env ff w = (Some e, v)"
  using assms by (simp add: tryBody_def Let_def and_then_def String_nat_5)


text \<open>
  A loop whose first \<open>i\<close> rounds raise nothing and whose round \<open>i\<close> raises is left
  there, with that exception.
\<close>

lemma for_loop_raise_from:
  assumes "for_loop (int i) j body w = (None, v)" and "body i v = (Some e, v')"
    and "int i < n" and "j \<le> i"
  shows "for_loop n j body w = (Some e, v')"
  using assms
proof (induction "i - j" arbitrary: j w)
  case 0
  then have j: "j = i" by simp
  have "v = w" using "0.prems"(1) by (simp add: j for_loop_done)
  then show ?case using "0.prems"(2,3) by (simp add: j for_loop.simps [of n i])
next
  case (Suc d)
  then have lt: "j < i" by simp
  obtain r w1 where b: "body j w = (r, w1)" by force
  have rn: "r = None"
    using Suc.prems(1) lt b by (cases r) (simp_all add: for_loop.simps [of "int i" j])
  have rest: "for_loop (int i) (Suc j) body w1 = (None, v)"
    using Suc.prems(1) lt b rn by (simp add: for_loop.simps [of "int i" j])
  have "for_loop n (Suc j) body w1 = (Some e, v')"
    using Suc.hyps(2) lt by (intro Suc.hyps(1) [OF _ rest Suc.prems(2,3)]) simp_all
  moreover have "int j < n" using lt Suc.prems(3) by simp
  ultimately show ?case using b rn by (simp add: for_loop.simps [of n j])
qed

lemma frameStep_result:
  "fst (frameStep env ff cfg n pad i v) = frameFailure env ff cfg n pad i v"
  by (auto simp: onFrame_def Let_def and_then_def ff_writeFile_def emit_def
      split: sum.splits prod.splits option.splits)

lemma renderFrames_frame_raises:
  assumes "configError env cfg = None" and "int i < n"
    and "for_loop (int i) 0 (frameStep env ff cfg n pad) (setStatus ''Rendering frames'' v)
           = (None, u)"
    and "frameFailure env ff cfg n pad i u = Some e"
  shows "renderFrames env ff cfg n pad v = (Some e, snd (frameStep env ff cfg n pad i u))"
proof -
  have "frameStep env ff cfg n pad i u = (Some e, snd (frameStep env ff cfg n pad i u))"
    using assms(4) by (simp add: prod_eq_iff frameStep_result)
  from for_loop_raise_from [OF assms(3) this assms(2)]
  show ?thesis by (simp add: renderFrames_valid [OF assms(1)])
qed



lemma onFrame_callback:
  "of_kind Callback (trace (snd (onFrame env ff n pad i blob v)))
     = of_kind Callback (trace v) @ [OnFrame i]"
  by (auto simp: onFrame_def Let_def and_then_def ff_writeFile_def setProgress_def emit_def
      of_kind_def split: sum.splits prod.splits option.splits)

text \<open>The example environment accepts the configurations whose dimensions are positive.\<close>

lemma quietEnv_configError:
  "configError (quietEnv handle) cfg =
     (if width cfg \<le> 0 \<or> height cfg \<le> 0 then Some (Error ''RenderError'') else None)"
  by (simp add: configError_def quietEnv_def)

lemma defaultConfig_dimensions: "width defaultConfig = 1080" "height defaultConfig = 1920"
  by (simp_all add: defaultConfig_def)

lemma idle_valid: "configError (quietEnv handle) (config idle) = None"
  by (simp add: quietEnv_configError idle_def initialState_def defaultConfig_dimensions)

lemma shortClip_valid: "configError (quietEnv handle) (config shortClip) = None"
  by (simp add: quietEnv_configError shortClip_def idle_def initialState_def
      defaultConfig_dimensions)

lemma negativeDuration_valid: "configError (quietEnv handle) (config negativeDuration) = None"
  by (simp add: quietEnv_configError negativeDuration_def idle_def initialState_def
      defaultConfig_dimensions)

lemma quiet_attempt:
  assumes "configError (quietEnv (Some quietFFmpeg)) (config w) = None"
  shows "fst (tryBody (quietEnv (Some quietFFmpeg)) quietFFmpeg w) = None"
  by (rule tryBody_no_raise [OF _ _ _ _ _ assms]) (simp_all add: quietEnv_def quietFFmpeg_def)

lemma broken_attempt:
  assumes "configError (quietEnv (Some brokenFFmpeg)) (config w) = None"
  shows "fst (tryBody (quietEnv (Some brokenFFmpeg)) brokenFFmpeg w)
           = Some (Error ''Conversion failed'')"
  by (rule tryBody_encoder_raises [OF _ _ _ _ assms])
    (simp_all add: quietEnv_def quietFFmpeg_def brokenFFmpeg_def)

lemma generateVideo_result:
  assumes "ffmpeg env = Some ff" and "tryBody env ff w = (r, w1)"
  shows "generateVideo env w =
     (case r of
        None \<Rightarrow> setIsGenerating False w1
      | Some err \<Rightarrow>
          setIsGenerating False
            (setStatus ''Failed''
               (setError (Some (error_message err)) (w1\<lparr>retryCount := retryCount w1 + 1\<rparr>))))"
  using assms by (simp add: generateVideo_def split: option.splits)

lemma generateVideo_of_kind:
  assumes "ffmpeg env = Some ff" and "k \<notin> {Flag, Failure, Status}"
  shows "of_kind k (trace (generateVideo env w)) = of_kind k (trace (snd (tryBody env ff w)))"
proof -
  obtain r w1 where t: "tryBody env ff w = (r, w1)" by force
  show ?thesis using assms(2) 
    by (cases r)
      (auto simp: generateVideo_result [OF assms(1) t] t setIsGenerating_def setStatus_def
        setError_def emit_def)
qed

section \<open>The outcome of an attempt\<close>

lemma generateVideo_cells:
  assumes "ffmpeg env = Some ff"
  shows "isGenerating (generateVideo env w) = False"
    and "fst (tryBody env ff w) = Some e \<Longrightarrow> status (generateVideo env w) = ''Failed''"
    and "fst (tryBody env ff w) = Some e \<Longrightarrow>
         error (generateVideo env w) = Some (error_message e)"
    and "fst (tryBody env ff w) = Some e \<Longrightarrow>
         retryCount (generateVideo env w) = retryCount w + 1"
    and "fst (tryBody env ff w) = None \<Longrightarrow> status (generateVideo env w) = ''Done''"
    and "fst (tryBody env ff w) = None \<Longrightarrow> error (generateVideo env w) = None"
    and "fst (tryBody env ff w) = None \<Longrightarrow> progress (generateVideo env w) = Some 100"
    and "fst (tryBody env ff w) = None \<Longrightarrow> retryCount (generateVideo env w) = retryCount w"
proof -
  obtain r w1 where t: "tryBody env ff w = (r, w1)" by force
  note g = generateVideo_result [OF assms t]
  have rc: "retryCount w1 = retryCount w"
    using tryBody_keeps_Input [of w env ff] t by (simp add: keeps_def)
  show "isGenerating (generateVideo env w) = False"
    by (cases r) (simp_all add: g setIsGenerating_def setStatus_def setError_def emit_def)
  show "status (generateVideo env w) = ''Failed''" if "fst (tryBody env ff w) = Some e"
    using that t by (simp add: g setIsGenerating_def setStatus_def setError_def emit_def)
  show "error (generateVideo env w) = Some (error_message e)" if "fst (tryBody env ff w) = Some e"
    using that t by (simp add: g setIsGenerating_def setStatus_def setError_def emit_def)
  show "retryCount (generateVideo env w) = retryCount w + 1" if "fst (tryBody env ff w) = Some e"
    using that t rc by (simp add: g setIsGenerating_def setStatus_def setError_def emit_def)
  show "status (generateVideo env w) = ''Done''" if "fst (tryBody env ff w) = None"
    using that t tryBody_success(4) [of env ff w w1]
    by (simp add: g setIsGenerating_def emit_def)
  show "error (generateVideo env w) = None" if "fst (tryBody env ff w) = None"
    using that t tryBody_success(6) [of env ff w w1]
    by (simp add: g setIsGenerating_def emit_def)
  show "progress (generateVideo env w) = Some 100" if "fst (tryBody env ff w) = None"
    using that t tryBody_success(5) [of env ff w w1]
    by (simp add: g setIsGenerating_def emit_def)
  show "retryCount (generateVideo env w) = retryCount w" if "fst (tryBody env ff w) = None"
    using that t rc by (simp add: g setIsGenerating_def emit_def)
qed

text \<open>An attempt ends with the status \<open>Done\<close> exactly when nothing raised in it.\<close>

lemma attempt_done_iff:
  assumes "ffmpeg env = Some ff"
  shows "status (generateVideo env w) = ''Done'' \<longleftrightarrow> fst (tryBody env ff w) = None"
proof (cases "fst (tryBody env ff w)")
  case None
  then show ?thesis using generateVideo_cells(5) [OF assms] by simp
next
  case (Some e)
  then show ?thesis using generateVideo_cells(2) [OF assms Some] by simp
qed



lemma zeroWidth_invalid:
  "configError (quietEnv handle) (config zeroWidth) = Some (Error ''RenderError'')"
  by (simp add: quietEnv_configError zeroWidth_def idle_def initialState_def
      defaultConfig_dimensions)


lemma shortClip_cells:
  "frameCount shortClip = 2" "audioFile shortClip = Some \<lparr>name = ''song.WAV'', content = [7]\<rparr>"
  "trace shortClip = []" "fps (config shortClip) = 2"
  by (simp_all add: shortClip_def idle_def initialState_def Number_times_examples)

lemma example_cells:
  "frameCount idle = 180" "retryCount idle = 0" "retryCount shortClip = 0"
  "retryCount zeroWidth = 0" "trace idle = []" "audioFile idle = None"
  by (simp_all add: idle_def shortClip_def zeroWidth_def initialState_def defaultConfig_def
      Number_times_examples)


text \<open>
  Claim C10. An attempt that fails changes neither the published output handle nor the
  browser's table of live object URLs, and makes no call on a handle: a handle published
  by an earlier attempt is still the preview and still alive.
\<close>

theorem failed_attempt_keeps_handle:
  assumes "ffmpeg env = Some ff" and "fst (tryBody env ff w) = Some e"
  shows "status (generateVideo env w) = ''Failed'' \<and>
         previewUrl (generateVideo env w) = previewUrl w \<and>
         objectUrls (generateVideo env w) = objectUrls w \<and>
         of_kind Handle (trace (generateVideo env w)) = of_kind Handle (trace w)"
proof -
  obtain w1 where t: "tryBody env ff w = (Some e, w1)"
    using assms(2) by (cases "tryBody env ff w") simp
  have k: "keeps Handle w w1" by (rule tryBody_failed_keeps_Handle [OF t])
  show ?thesis using k
    by (simp add: generateVideo_result [OF assms(1) t] keeps_def setIsGenerating_def
        setStatus_def setError_def emit_def)
qed

section \<open>A request before the encoder is ready\<close>

text \<open>
  Called with no encoder handle, \<open>generateVideo\<close> sets the error text and does nothing
  else: the status is not changed (so \<open>Preparing\<close> is not entered), the encoder's storage
  is untouched, and the one call made is the setting of the error.
\<close>

lemma generateVideo_no_handle:
  assumes "ffmpeg env = None"
  shows "error (generateVideo env w) =
           Some ''FFmpeg not ready yet. Please wait a second and try again.''"
    and "trace (generateVideo env w) =
           trace w @ [SetError (Some ''FFmpeg not ready yet. Please wait a second and try again.'')]"
    and "status (generateVideo env w) = status w"
    and "progress (generateVideo env w) = progress w"
    and "isGenerating (generateVideo env w) = isGenerating w"
    and "retryCount (generateVideo env w) = retryCount w"
    and "fs (generateVideo env w) = fs w"
    and "previewUrl (generateVideo env w) = previewUrl w"
    and "objectUrls (generateVideo env w) = objectUrls w"
  using assms by (simp_all add: generateVideo_def setError_def emit_def)

text \<open>
  Whatever has happened to the hook, it holds a handle as soon as one of its flags is
  set.
\<close>

lemma useFFmpeg_after_snoc:
  "useFFmpeg_after (evs @ [ev]) = hook_step (useFFmpeg_after evs) ev"
  by (simp add: useFFmpeg_after_def)

lemma useFFmpeg_handle:
  "hook_ready (useFFmpeg_after evs) \<or> hook_loading (useFFmpeg_after evs)
     \<longrightarrow> ffmpegRef (useFFmpeg_after evs) \<noteq> None"
proof (induction evs rule: rev_induct)
  case Nil
  show ?case by (simp add: useFFmpeg_after_def useFFmpeg_initial_def)
next
  case (snoc ev evs)
  then show ?case
    by (cases ev)
      (auto simp: useFFmpeg_after_snoc load_called_def load_setReady_def load_setLoading_def
        split: option.splits)
qed

text \<open>
  Claim C9, as amended. The component renders with the result of the hook, whatever has
  happened to the hook so far. Then a handle is there whenever the hook reports
  \<open>ready\<close>, so that a request that the form lets through reaches \<open>generateVideo\<close> with a
  handle; and while the encoder is not ready (not yet loaded, or loading) the submit
  button is disabled and a request, through the button or through \<open>onSubmit\<close>, changes
  nothing: no error is set, the status stays, no call is made. The error text for an
  encoder that is not ready is set by \<open>generateVideo\<close> called with no handle, which then
  does nothing else.
\<close>

theorem request_before_encoder_ready:
  assumes "rendersWith (useFFmpeg_after evs) env w"
  shows "(ready w \<and> \<not> loading w \<longrightarrow>
            ffmpeg env \<noteq> None \<and> onSubmit env w = generateVideo env w) \<and>
         (\<not> (ready w \<and> \<not> loading w) \<longrightarrow>
            submitDisabled w \<and> submitForm env w = w \<and> onSubmit env w = w) \<and>
         (ffmpeg env = None \<longrightarrow>
            \<not> ready w \<and> onSubmit env w = w \<and>
            error (generateVideo env w) =
              Some ''FFmpeg not ready yet. Please wait a second and try again.'' \<and>
            trace (generateVideo env w) =
              trace w @
              [SetError (Some ''FFmpeg not ready yet. Please wait a second and try again.'')] \<and>
            status (generateVideo env w) = status w \<and>
            progress (generateVideo env w) = progress w \<and>
            isGenerating (generateVideo env w) = isGenerating w \<and>
            retryCount (generateVideo env w) = retryCount w \<and>
            fs (generateVideo env w) = fs w \<and>
            previewUrl (generateVideo env w) = previewUrl w \<and>
            objectUrls (generateVideo env w) = objectUrls w)"
proof -
  have h: "ffmpeg env = ffmpegRef (useFFmpeg_after evs)"
    "ready w = hook_ready (useFFmpeg_after evs)" "loading w = hook_loading (useFFmpeg_after evs)"
    using assms by (simp_all add: rendersWith_def)
  have 1: "ready w \<and> \<not> loading w \<longrightarrow>
            ffmpeg env \<noteq> None \<and> onSubmit env w = generateVideo env w"
    using useFFmpeg_handle [of evs] h by (simp add: onSubmit_def)
  have 2: "\<not> (ready w \<and> \<not> loading w) \<longrightarrow>
            submitDisabled w \<and> submitForm env w = w \<and> onSubmit env w = w"
    by (auto simp: submitDisabled_def submitForm_def onSubmit_def)
  have 3: "\<not> ready w \<and> onSubmit env w = w" if "ffmpeg env = None"
    using useFFmpeg_handle [of evs] h that by (auto simp: onSubmit_def)
  show ?thesis
    using 1 2 3 generateVideo_no_handle [of env w] by blast
qed

lemma example_renders:
  "rendersWith (useFFmpeg_after []) (quietEnv None) mounted"
  "rendersWith (useFFmpeg_after [LoadCalled quietFFmpeg]) (quietEnv (Some quietFFmpeg)) stillLoading"
  "rendersWith (useFFmpeg_after [LoadCalled quietFFmpeg, ReadySet, LoadingCleared])
     (quietEnv (Some quietFFmpeg)) idle"
  by (simp_all add: rendersWith_def useFFmpeg_after_def useFFmpeg_initial_def load_called_def
      load_setReady_def load_setLoading_def quietEnv_def mounted_def stillLoading_def idle_def
      initialState_def)

theorem request_before_encoder_ready_witness:
  "rendersWith (useFFmpeg_after []) (quietEnv None) mounted \<and>
   \<not> (ready mounted \<and> \<not> loading mounted) \<and>
   ffmpeg (quietEnv None) = None \<and>
   submitDisabled mounted \<and>
   submitForm (quietEnv None) mounted = mounted \<and>
   onSubmit (quietEnv None) mounted = mounted \<and>
   error (generateVideo (quietEnv None) mounted) =
     Some ''FFmpeg not ready yet. Please wait a second and try again.'' \<and>
   trace (generateVideo (quietEnv None) mounted) =
     [SetError (Some ''FFmpeg not ready yet. Please wait a second and try again.'')] \<and>
   status (generateVideo (quietEnv None) mounted) = ''Idle'' \<and>
   rendersWith (useFFmpeg_after [LoadCalled quietFFmpeg]) (quietEnv (Some quietFFmpeg)) stillLoading \<and>
   \<not> (ready stillLoading \<and> \<not> loading stillLoading) \<and>
   onSubmit (quietEnv (Some quietFFmpeg)) stillLoading = stillLoading \<and>
   rendersWith (useFFmpeg_after [LoadCalled quietFFmpeg, ReadySet, LoadingCleared])
     (quietEnv (Some quietFFmpeg)) idle \<and>
   ready idle \<and> \<not> loading idle \<and>
   ffmpeg (quietEnv (Some quietFFmpeg)) \<noteq> None \<and>
   onSubmit (quietEnv (Some quietFFmpeg)) idle = generateVideo (quietEnv (Some quietFFmpeg)) idle"
proof -
  have c: "\<not> ready mounted" "\<not> loading mounted" "trace mounted = []" "status mounted = ''Idle''"
    "\<not> ready stillLoading" "loading stillLoading" "ready idle" "\<not> loading idle"
    "ffmpeg (quietEnv None) = None"
    by (simp_all add: mounted_def stillLoading_def idle_def initialState_def quietEnv_def)
  show ?thesis
    using request_before_encoder_ready [OF example_renders(1)]
      request_before_encoder_ready [OF example_renders(2)]
      request_before_encoder_ready [OF example_renders(3)]
      example_renders c
    by simp
qed

text \<open>
  The claim as first stated has an error surfaced when a render is requested before the
  encoder is ready. A request made right after mounting, or while the encoder is
  loading, leaves the error unset.
\<close>

theorem request_before_encoder_ready_counterexample:
  "rendersWith (useFFmpeg_after []) (quietEnv None) mounted \<and>
   \<not> ready mounted \<and>
   error (submitForm (quietEnv None) mounted) = None \<and>
   error (onSubmit (quietEnv None) mounted) = None \<and>
   rendersWith (useFFmpeg_after [LoadCalled quietFFmpeg]) (quietEnv (Some quietFFmpeg)) stillLoading \<and>
   \<not> ready stillLoading \<and>
   error (submitForm (quietEnv (Some quietFFmpeg)) stillLoading) = None \<and>
   error (onSubmit (quietEnv (Some quietFFmpeg)) stillLoading) = None"
  using example_renders(1,2)
  by (simp add: submitForm_def submitDisabled_def onSubmit_def mounted_def stillLoading_def
      initialState_def)

section \<open>The output handle\<close>

lemma generateVideo_success:
  assumes "ffmpeg env = Some ff" and "fst (tryBody env ff w) = None"
  shows "trace (generateVideo env w) = trace w @ successfulCalls env w @ [SetIsGenerating False]"
    and "previewUrl (generateVideo env w) = Some (BlobUrl (nextUrl w))"
    and "nextUrl (generateVideo env w) = Suc (nextUrl w)"
    and "previewUrl w \<noteq> Some (BlobUrl (nextUrl w)) \<Longrightarrow>
         dom (objectUrls (generateVideo env w)) =
           insert (BlobUrl (nextUrl w)) (dom (objectUrls w) - set_option (previewUrl w))"
proof -
  obtain w1 where t: "tryBody env ff w = (None, w1)"
    using assms(2) by (cases "tryBody env ff w") simp
  note g = generateVideo_result [OF assms(1) t]
  show "trace (generateVideo env w) = trace w @ successfulCalls env w @ [SetIsGenerating False]"
    using tryBody_success(1) [OF t] by (simp add: g setIsGenerating_def emit_def)
  show "previewUrl (generateVideo env w) = Some (BlobUrl (nextUrl w))"
    using tryBody_success(2) [OF t] by (simp add: g setIsGenerating_def emit_def)
  show "nextUrl (generateVideo env w) = Suc (nextUrl w)"
    using tryBody_success(3) [OF t] by (simp add: g setIsGenerating_def emit_def)
  show "dom (objectUrls (generateVideo env w)) =
           insert (BlobUrl (nextUrl w)) (dom (objectUrls w) - set_option (previewUrl w))"
    if "previewUrl w \<noteq> Some (BlobUrl (nextUrl w))"
    using tryBody_success(7) [OF t that] by (simp add: g setIsGenerating_def emit_def)
qed

lemma oneLiveHandle_fresh:
  assumes "oneLiveHandle w"
  shows "previewUrl w \<noteq> Some (BlobUrl (nextUrl w))" and "BlobUrl (nextUrl w) \<notin> dom (objectUrls w)"
proof -
  show 2: "BlobUrl (nextUrl w) \<notin> dom (objectUrls w)"
    using assms unfolding oneLiveHandle_def by (metis less_irrefl)
  show "previewUrl w \<noteq> Some (BlobUrl (nextUrl w))"
  proof
    assume "previewUrl w = Some (BlobUrl (nextUrl w))"
    then have "BlobUrl (nextUrl w) \<in> dom (objectUrls w)"
      using assms unfolding oneLiveHandle_def by simp
    with 2 show False by simp
  qed
qed

lemma oneLiveHandle_card: "oneLiveHandle w \<Longrightarrow> card (dom (objectUrls w)) \<le> 1"
  by (cases "previewUrl w") (simp_all add: oneLiveHandle_def)

lemma oneLiveHandle_idle: "oneLiveHandle idle"
  by (simp add: oneLiveHandle_def idle_def initialState_def)

lemma successfulCalls_publish:
  "\<exists>before. of_kind Handle before = [] \<and>
     successfulCalls env w =
       before @ [SetStatus ''Finalizing'', ReadFile ''output.mp4'',
                 CreateObjectURL (BlobUrl (nextUrl w))]
       @ (case previewUrl w of Some oldUrl \<Rightarrow> [RevokeObjectURL oldUrl] | None \<Rightarrow> [])
       @ [SetPreviewUrl (Some (BlobUrl (nextUrl w))), SetProgress (Some 100), SetStatus ''Done'']"
proof -
  define before where "before =
     [SetIsGenerating True, SetError None, SetProgress None,
      SetStatus ''Preparing workspace'', DeleteFile ''output.mp4'']
     @ map (\<lambda>i. DeleteFile (frameFileName i 5)) [0 ..< nat (frameCount w)]
     @ (case audioName w of Some a \<Rightarrow> [DeleteFile a] | None \<Rightarrow> [])
     @ [SetStatus ''Rendering frames'']
     @ concat (map (\<lambda>i. [OnFrame i, WriteFile (frameFileName i 5),
                           SetProgress (Some (frameProgress i (frameCount w)))])
         [0 ..< nat (frameCount w)])
     @ (case audioName w of
          Some a \<Rightarrow> [SetStatus ''Transcoding audio'', WriteFile a] | None \<Rightarrow> [])
     @ [SetStatus ''Encoding video'', Exec (encoderArgs env w), SetProgress (Some 90)]"
  have "of_kind Handle before = []"
    by (simp add: before_def of_kind_map [where k' = Storage] of_kind_concat_map
        split: option.splits)
  moreover have "successfulCalls env w =
       before @ [SetStatus ''Finalizing'', ReadFile ''output.mp4'',
                 CreateObjectURL (BlobUrl (nextUrl w))]
       @ (case previewUrl w of Some oldUrl \<Rightarrow> [RevokeObjectURL oldUrl] | None \<Rightarrow> [])
       @ [SetPreviewUrl (Some (BlobUrl (nextUrl w))), SetProgress (Some 100), SetStatus ''Done'']"
    by (simp add: before_def successfulCalls_def)
  ultimately show ?thesis by blast
qed

lemma generateVideo_oneLiveHandle:
  assumes "oneLiveHandle w"
  shows "oneLiveHandle (generateVideo env w)"
proof (cases "ffmpeg env")
  case None
  then show ?thesis using assms
    by (simp add: generateVideo_def setError_def emit_def oneLiveHandle_def)
next
  case (Some ff)
  show ?thesis
  proof (cases "fst (tryBody env ff w)")
    case (Some e)
    obtain w1 where t: "tryBody env ff w = (Some e, w1)"
      using Some by (cases "tryBody env ff w") simp
    have "keeps Handle w w1" by (rule tryBody_failed_keeps_Handle [OF t])
    then show ?thesis using assms
      by (simp add: generateVideo_result [OF \<open>ffmpeg env = Some ff\<close> t] keeps_def
          setIsGenerating_def setStatus_def setError_def emit_def oneLiveHandle_def)
  next
    case None
    note s = generateVideo_success [OF \<open>ffmpeg env = Some ff\<close> None]
    have d: "dom (objectUrls (generateVideo env w)) = {BlobUrl (nextUrl w)}"
      using s(4) [OF oneLiveHandle_fresh(1) [OF assms]] assms by (simp add: oneLiveHandle_def)
    show ?thesis using d s(2) s(3) by (simp add: oneLiveHandle_def)
  qed
qed

text \<open>
  Render attempts by themselves keep the handle in order. Starting from a state whose only
  live object URL is the published one, an attempt ends in such a state again, so at most
  one output handle is alive after it. Either the attempt changes nothing about the
  handle, or it ended \<open>Done\<close> without error and published a new URL \<open>u\<close>: then \<open>u\<close> is
  the only live URL, and the calls on handles come after the status \<open>Finalizing\<close> and the
  read of the output, in the order: create \<open>u\<close>, revoke the URL published before (if
  any), publish \<open>u\<close>.
\<close>

theorem attempts_keep_one_live_handle:
  assumes "oneLiveHandle w"
  shows "oneLiveHandle (generateVideo env w) \<and>
     card (dom (objectUrls (generateVideo env w))) \<le> 1 \<and>
     (previewUrl (generateVideo env w) = previewUrl w \<and>
      objectUrls (generateVideo env w) = objectUrls w \<and>
      of_kind Handle (trace (generateVideo env w)) = of_kind Handle (trace w)
      \<or>
      (\<exists>u before.
         u \<notin> dom (objectUrls w) \<and>
         status (generateVideo env w) = ''Done'' \<and>
         error (generateVideo env w) = None \<and>
         previewUrl (generateVideo env w) = Some u \<and>
         dom (objectUrls (generateVideo env w)) = {u} \<and>
         of_kind Handle before = [] \<and>
         trace (generateVideo env w) =
           trace w @ before
           @ [SetStatus ''Finalizing'', ReadFile ''output.mp4'', CreateObjectURL u]
           @ (case previewUrl w of Some oldUrl \<Rightarrow> [RevokeObjectURL oldUrl] | None \<Rightarrow> [])
           @ [SetPreviewUrl (Some u), SetProgress (Some 100), SetStatus ''Done'',
              SetIsGenerating False]))"
proof -
  have inv: "oneLiveHandle (generateVideo env w)" by (rule generateVideo_oneLiveHandle [OF assms])
  have "previewUrl (generateVideo env w) = previewUrl w \<and>
      objectUrls (generateVideo env w) = objectUrls w \<and>
      of_kind Handle (trace (generateVideo env w)) = of_kind Handle (trace w)
      \<or>
      (\<exists>u before.
         u \<notin> dom (objectUrls w) \<and>
         status (generateVideo env w) = ''Done'' \<and>
         error (generateVideo env w) = None \<and>
         previewUrl (generateVideo env w) = Some u \<and>
         dom (objectUrls (generateVideo env w)) = {u} \<and>
         of_kind Handle before = [] \<and>
         trace (generateVideo env w) =
           trace w @ before
           @ [SetStatus ''Finalizing'', ReadFile ''output.mp4'', CreateObjectURL u]
           @ (case previewUrl w of Some oldUrl \<Rightarrow> [RevokeObjectURL oldUrl] | None \<Rightarrow> [])
           @ [SetPreviewUrl (Some u), SetProgress (Some 100), SetStatus ''Done'',
              SetIsGenerating False])"
  proof (cases "ffmpeg env")
    case None
    then show ?thesis by (simp add: generateVideo_def setError_def emit_def)
  next
    case (Some ff)
    show ?thesis
    proof (cases "fst (tryBody env ff w)")
      case (Some e)
      obtain w1 where t: "tryBody env ff w = (Some e, w1)"
        using Some by (cases "tryBody env ff w") simp
      have "keeps Handle w w1" by (rule tryBody_failed_keeps_Handle [OF t])
      then show ?thesis
        by (simp add: generateVideo_result [OF \<open>ffmpeg env = Some ff\<close> t] keeps_def
            setIsGenerating_def setStatus_def setError_def emit_def)
    next
      case None
      note s = generateVideo_success [OF \<open>ffmpeg env = Some ff\<close> None]
      note c = generateVideo_cells [OF \<open>ffmpeg env = Some ff\<close>, of w]
      obtain before where b: "of_kind Handle before = []"
        "successfulCalls env w =
          before @ [SetStatus ''Finalizing'', ReadFile ''output.mp4'',
                 CreateObjectURL (BlobUrl (nextUrl w))]
          @ (case previewUrl w of Some oldUrl \<Rightarrow> [RevokeObjectURL oldUrl] | None \<Rightarrow> [])
          @ [SetPreviewUrl (Some (BlobUrl (nextUrl w))), SetProgress (Some 100), SetStatus ''Done'']"
        using successfulCalls_publish [of env w] by blast
      have d: "dom (objectUrls (generateVideo env w)) = {BlobUrl (nextUrl w)}"
        using s(4) [OF oneLiveHandle_fresh(1) [OF assms]] assms by (simp add: oneLiveHandle_def)
      have "BlobUrl (nextUrl w) \<notin> dom (objectUrls w) \<and>
         status (generateVideo env w) = ''Done'' \<and>
         error (generateVideo env w) = None \<and>
         previewUrl (generateVideo env w) = Some (BlobUrl (nextUrl w)) \<and>
         dom (objectUrls (generateVideo env w)) = {BlobUrl (nextUrl w)} \<and>
         of_kind Handle before = [] \<and>
         trace (generateVideo env w) =
           trace w @ before
           @ [SetStatus ''Finalizing'', ReadFile ''output.mp4'', CreateObjectURL (BlobUrl (nextUrl w))]
           @ (case previewUrl w of Some oldUrl \<Rightarrow> [RevokeObjectURL oldUrl] | None \<Rightarrow> [])
           @ [SetPreviewUrl (Some (BlobUrl (nextUrl w))), SetProgress (Some 100), SetStatus ''Done'',
              SetIsGenerating False]"
        using oneLiveHandle_fresh(2) [OF assms] c(5) [OF None] c(6) [OF None] s(2) d b(1)
          s(1) b(2)
        by simp
      then show ?thesis by blast
    qed
  qed
  with inv oneLiveHandle_card [OF inv] show ?thesis by blast
qed

lemma generateVideo_config: "config (generateVideo env w) = config w"
proof (cases "ffmpeg env")
  case None
  then show ?thesis by (simp add: generateVideo_def setError_def emit_def)
next
  case (Some ff)
  obtain r w1 where t: "tryBody env ff w = (r, w1)" by force
  have "config w1 = config w"
    using tryBody_keeps_Input [of w env ff] t by (simp add: keeps_def)
  then show ?thesis
    by (cases r)
      (simp_all add: generateVideo_result [OF Some t] setIsGenerating_def setStatus_def
        setError_def emit_def)
qed

lemma published_valid: "configError (quietEnv handle) (config published) = None"
  by (simp add: published_def generateVideo_config idle_valid)

lemma published_handle:
  "previewUrl published = Some (BlobUrl 0)" "dom (objectUrls published) = {BlobUrl 0}"
  "nextUrl published = 1" "oneLiveHandle published"
proof -
  have q: "ffmpeg (quietEnv (Some quietFFmpeg)) = Some quietFFmpeg" by (simp add: quietEnv_def)
  note s = generateVideo_success [OF q quiet_attempt [OF idle_valid]]
  have i: "nextUrl idle = 0" "previewUrl idle = None" "objectUrls idle = Map.empty"
    by (simp_all add: idle_def initialState_def)
  show "previewUrl published = Some (BlobUrl 0)" using s(2) i by (simp add: published_def)
  show "nextUrl published = 1" using s(3) i by (simp add: published_def)
  show "dom (objectUrls published) = {BlobUrl 0}" using s(4) i by (simp add: published_def)
  show "oneLiveHandle published"
    unfolding published_def by (rule generateVideo_oneLiveHandle [OF oneLiveHandle_idle])
qed

theorem attempts_keep_one_live_handle_example:
  "oneLiveHandle published \<and>
   oneLiveHandle (generateVideo (quietEnv (Some quietFFmpeg)) published) \<and>
   card (dom (objectUrls (generateVideo (quietEnv (Some quietFFmpeg)) published))) \<le> 1 \<and>
   previewUrl published = Some (BlobUrl 0) \<and>
   previewUrl (generateVideo (quietEnv (Some quietFFmpeg)) published) = Some (BlobUrl 1) \<and>
   dom (objectUrls (generateVideo (quietEnv (Some quietFFmpeg)) published)) = {BlobUrl 1}"
proof -
  have q: "ffmpeg (quietEnv (Some quietFFmpeg)) = Some quietFFmpeg" by (simp add: quietEnv_def)
  note s = generateVideo_success [OF q quiet_attempt [OF published_valid]]
  have d: "dom (objectUrls (generateVideo (quietEnv (Some quietFFmpeg)) published)) = {BlobUrl 1}"
    using s(4) published_handle by simp
  show ?thesis
    using attempts_keep_one_live_handle [OF published_handle(4), of "quietEnv (Some quietFFmpeg)"]
      published_handle s(2) d
    by simp
qed

theorem failed_attempt_keeps_handle_witness:
  "ffmpeg (quietEnv (Some brokenFFmpeg)) = Some brokenFFmpeg \<and>
   fst (tryBody (quietEnv (Some brokenFFmpeg)) brokenFFmpeg published)
     = Some (Error ''Conversion failed'') \<and>
   status (generateVideo (quietEnv (Some brokenFFmpeg)) published) = ''Failed'' \<and>
   previewUrl (generateVideo (quietEnv (Some brokenFFmpeg)) published) = Some (BlobUrl 0) \<and>
   dom (objectUrls (generateVideo (quietEnv (Some brokenFFmpeg)) published)) = {BlobUrl 0}"
proof -
  have b: "ffmpeg (quietEnv (Some brokenFFmpeg)) = Some brokenFFmpeg" by (simp add: quietEnv_def)
  show ?thesis
    using failed_attempt_keeps_handle [OF b broken_attempt [OF published_valid]] b
      broken_attempt [OF published_valid] published_handle
    by simp
qed

section \<open>Phases and progress of a successful attempt\<close>

lemma roundToBinary64_1: "roundToBinary64 1 = 1"
  by code_simp

lemma roundToBinary64_50: "roundToBinary64 50 = 50"
  by code_simp

lemma frameProgress_mono:
  assumes "0 < n" and "i \<le> j"
  shows "frameProgress i n \<le> frameProgress j n"
proof -
  have "rat_of_nat (i + 1) / rat_of_int n \<le> rat_of_nat (j + 1) / rat_of_int n"
    using assms by (simp add: divide_right_mono)
  then have "Number_divide (rat_of_nat (i + 1)) (rat_of_int n)
      \<le> Number_divide (rat_of_nat (j + 1)) (rat_of_int n)"
    unfolding Number_divide_def by (rule roundToBinary64_mono)
  moreover have "a * 50 \<le> b * 50" if "a \<le> b" for a b :: rat
    using that by simp
  ultimately have "Number_divide (rat_of_nat (i + 1)) (rat_of_int n) * 50
      \<le> Number_divide (rat_of_nat (j + 1)) (rat_of_int n) * 50"
    by blast
  then have "Number_times (Number_divide (rat_of_nat (i + 1)) (rat_of_int n)) 50
      \<le> Number_times (Number_divide (rat_of_nat (j + 1)) (rat_of_int n)) 50"
    unfolding Number_times_def by (rule roundToBinary64_mono)
  moreover have "a + 1 / 2 \<le> b + 1 / 2" if "a \<le> b" for a b :: rat
    using that by simp
  ultimately have "Number_times (Number_divide (rat_of_nat (i + 1)) (rat_of_int n)) 50 + 1 / 2
      \<le> Number_times (Number_divide (rat_of_nat (j + 1)) (rat_of_int n)) 50 + 1 / 2"
    by blast
  then show ?thesis unfolding Math_round_def by (rule floor_mono)
qed

lemma frameProgress_le_50:
  assumes "int i < n"
  shows "frameProgress i n \<le> 50"
proof -
  have n: "0 < rat_of_int n" using assms by simp
  have "rat_of_nat (i + 1) \<le> rat_of_int n"
    using assms by (metis Suc_eq_plus1 int_Suc of_int_le_iff of_int_of_nat_eq zless_imp_add1_zle of_nat_Suc add.commute)
  then have "rat_of_nat (i + 1) / rat_of_int n \<le> 1" using n by (simp add: divide_le_eq)
  then have "Number_divide (rat_of_nat (i + 1)) (rat_of_int n) \<le> roundToBinary64 1"
    unfolding Number_divide_def by (rule roundToBinary64_mono)
  then have "Number_divide (rat_of_nat (i + 1)) (rat_of_int n) \<le> 1"
    by (simp only: roundToBinary64_1)
  moreover have "a * 50 \<le> 50" if "a \<le> 1" for a :: rat
    using that by simp
  ultimately have "Number_divide (rat_of_nat (i + 1)) (rat_of_int n) * 50 \<le> 50" by blast
  then have "Number_times (Number_divide (rat_of_nat (i + 1)) (rat_of_int n)) 50
      \<le> roundToBinary64 50"
    unfolding Number_times_def by (rule roundToBinary64_mono)
  then have "Number_times (Number_divide (rat_of_nat (i + 1)) (rat_of_int n)) 50 \<le> 50"
    by (simp only: roundToBinary64_50)
  moreover have "a + 1 / 2 < 51" if "a \<le> 50" for a :: rat
    using that by simp
  ultimately have
    "Number_times (Number_divide (rat_of_nat (i + 1)) (rat_of_int n)) 50 + 1 / 2 < 51"
    by blast
  then have
    "\<lfloor>Number_times (Number_divide (rat_of_nat (i + 1)) (rat_of_int n)) 50 + 1 / 2\<rfloor> < 51"
    by (simp only: floor_less_iff of_int_numeral)
  then show ?thesis unfolding Math_round_def by simp
qed

lemma progress_values_sorted:
  "sorted (map (\<lambda>i. frameProgress i n) [0 ..< nat n] @ [90, 100])"
proof -
  have "sorted_wrt (\<lambda>i j. frameProgress i n \<le> frameProgress j n) [0 ..< nat n]"
  proof (rule sorted_wrt_mono_rel [where P = "(\<le>)"])
    fix i j assume "i \<in> set [0 ..< nat n]" and "i \<le> j"
    then show "frameProgress i n \<le> frameProgress j n"
      by (intro frameProgress_mono) auto
  next
    show "sorted [0 ..< nat n]" by simp
  qed
  then have 1: "sorted (map (\<lambda>i. frameProgress i n) [0 ..< nat n])"
    by (simp add: sorted_map)
  have 2: "\<forall>x \<in> set (map (\<lambda>i. frameProgress i n) [0 ..< nat n]). x \<le> 50"
    using frameProgress_le_50 [of _ n] by auto
  show ?thesis using 1 2 by (force simp: sorted_append)
qed

lemma audioName_case:
  "(case audioInputName f of Some a \<Rightarrow> x | None \<Rightarrow> y) = (case f of Some a \<Rightarrow> x | None \<Rightarrow> y)"
  by (simp add: audioInputName_def split: option.splits)

text \<open>
  Claim C1. In an attempt in which nothing raises, the status is set to
  \<open>Preparing workspace\<close>, \<open>Rendering frames\<close>, (\<open>Transcoding audio\<close> when audio is
  supplied,) \<open>Encoding video\<close>, \<open>Finalizing\<close>, \<open>Done\<close>, in this order and to nothing
  else; the progress is first unset and then takes the values reported after each frame
  (\<open>Math.round(((i + 1) / totalFrames) * 50)\<close>, the quotient and the product rounded
  to binary64), then 90, then 100, which never decrease; and the attempt ends with
  status \<open>Done\<close> and progress 100.
\<close>

theorem successful_attempt_phases_and_progress:
  assumes "ffmpeg env = Some ff" and "fst (tryBody env ff w) = None"
  shows "of_kind Status (trace (generateVideo env w)) =
           of_kind Status (trace w) @
           map SetStatus ([''Preparing workspace'', ''Rendering frames'']
             @ (case audioFile w of Some f \<Rightarrow> [''Transcoding audio''] | None \<Rightarrow> [])
             @ [''Encoding video'', ''Finalizing'', ''Done'']) \<and>
         of_kind Progress (trace (generateVideo env w)) =
           of_kind Progress (trace w) @ SetProgress None #
           map (\<lambda>p. SetProgress (Some p))
             (map (\<lambda>i. frameProgress i (frameCount w)) [0 ..< nat (frameCount w)] @ [90, 100]) \<and>
         sorted (map (\<lambda>i. frameProgress i (frameCount w)) [0 ..< nat (frameCount w)] @ [90, 100]) \<and>
         status (generateVideo env w) = ''Done'' \<and>
         progress (generateVideo env w) = Some 100"
proof -
  note s = generateVideo_success(1) [OF assms]
  note c = generateVideo_cells [OF assms(1), of w]
  have 1: "of_kind Status (trace (generateVideo env w)) =
           of_kind Status (trace w) @
           map SetStatus ([''Preparing workspace'', ''Rendering frames'']
             @ (case audioFile w of Some f \<Rightarrow> [''Transcoding audio''] | None \<Rightarrow> [])
             @ [''Encoding video'', ''Finalizing'', ''Done''])"
    by (simp add: s successfulCalls_Status audioName_case)
  have 2: "of_kind Progress (trace (generateVideo env w)) =
           of_kind Progress (trace w) @ SetProgress None #
           map (\<lambda>p. SetProgress (Some p))
             (map (\<lambda>i. frameProgress i (frameCount w)) [0 ..< nat (frameCount w)] @ [90, 100])"
    by (simp add: s successfulCalls_Progress comp_def)
  show ?thesis
    using 1 2 progress_values_sorted [of "frameCount w"] c(5) [OF assms(2)] c(7) [OF assms(2)]
    by blast
qed

theorem successful_attempt_phases_and_progress_witness:
  "ffmpeg (quietEnv (Some quietFFmpeg)) = Some quietFFmpeg \<and>
   fst (tryBody (quietEnv (Some quietFFmpeg)) quietFFmpeg shortClip) = None \<and>
   of_kind Status (trace (generateVideo (quietEnv (Some quietFFmpeg)) shortClip)) =
     [SetStatus ''Preparing workspace'', SetStatus ''Rendering frames'',
      SetStatus ''Transcoding audio'', SetStatus ''Encoding video'', SetStatus ''Finalizing'',
      SetStatus ''Done''] \<and>
   of_kind Progress (trace (generateVideo (quietEnv (Some quietFFmpeg)) shortClip)) =
     [SetProgress None, SetProgress (Some 25), SetProgress (Some 50), SetProgress (Some 90),
      SetProgress (Some 100)] \<and>
   status (generateVideo (quietEnv (Some quietFFmpeg)) shortClip) = ''Done'' \<and>
   progress (generateVideo (quietEnv (Some quietFFmpeg)) shortClip) = Some 100"
proof -
  have q: "ffmpeg (quietEnv (Some quietFFmpeg)) = Some quietFFmpeg" by (simp add: quietEnv_def)
  have u: "[0 ..< (2::nat)] = [0, 1]" by (simp add: upt_rec)
  note th = successful_attempt_phases_and_progress [OF q quiet_attempt [OF shortClip_valid],
      unfolded shortClip_cells(1)]
  show ?thesis
    using th q quiet_attempt [OF shortClip_valid]
    by (simp add: shortClip_cells(2,3) u Math_round_def Number_times_examples floor_eq_iff)
qed

section \<open>The number of frames\<close>

lemma renderFrames_empty:
  assumes "n \<le> 0" and "configError env cfg = None"
  shows "renderFrames env ff cfg n pad v = (None, setStatus ''Rendering frames'' v)"
  using assms by (simp add: renderFrames_valid for_loop_done)

lemma generateVideo_callbacks:
  assumes "ffmpeg env = Some ff"
    and "fst (renderFrames env ff (config w) (frameCount w) 5 (prepared ff w)) = None"
  shows "of_kind Callback (trace (generateVideo env w)) =
           of_kind Callback (trace w) @ map OnFrame [0 ..< nat (frameCount w)]"
proof -
  obtain r w' where t: "tryBody env ff w = (r, w')" by force
  obtain w2 where f: "renderFrames env ff (config w) (frameCount w) 5 (prepared ff w) = (None, w2)"
    using assms(2)
    by (cases "renderFrames env ff (config w) (frameCount w) 5 (prepared ff w)") simp
  have p: "of_kind Callback (trace (prepared ff w)) = of_kind Callback (trace w)"
    using keeps_prepare [of Callback w ff "frameCount w" 5 "audioName w"] by (simp add: keeps_def)
  have 2: "of_kind Callback (trace w2) =
      of_kind Callback (trace w) @ map OnFrame [0 ..< nat (frameCount w)]"
    using renderFrames_trace [OF f] p by (simp add: of_kind_concat_map concat_map_singleton)
  from t have "keeps Callback w2 w'"
  proof (cases rule: tryBody_cases)
    case (frames e)
    then show ?thesis using f by simp
  next
    case (audio e v2)
    then have "v2 = w2" using f by simp
    with audio(3) show ?thesis by (intro step_stageAudio [OF keeps_refl]) auto
  next
    case (encode e v2 v3)
    then have v: "v2 = w2" using f by simp
    have 3: "keeps Callback w2 v3"
      using encode(3) v by (intro step_stageAudio [OF keeps_refl]) auto
    show ?thesis by (rule step_encode [OF 3 encode(4)]) simp
  next
    case (finalize v2 v3 v4)
    then have v: "v2 = w2" using f by simp
    have 3: "keeps Callback w2 v3"
      using finalize(2) v by (intro step_stageAudio [OF keeps_refl]) auto
    have 4: "keeps Callback w2 v4" by (rule step_encode [OF 3 finalize(3)]) simp
    show ?thesis by (rule step_finalize [OF 4 finalize(4)]) simp
  qed
  then have "of_kind Callback (trace w') =
      of_kind Callback (trace w) @ map OnFrame [0 ..< nat (frameCount w)]"
    using 2 by (simp add: keeps_def)
  then show ?thesis
    using generateVideo_of_kind [OF assms(1), of Callback w] t by simp
qed

text \<open>When the frames raise, the callbacks of the attempt are those made until then.\<close>

lemma generateVideo_callbacks_raise:
  assumes "ffmpeg env = Some ff"
    and "renderFrames env ff (config w) (frameCount w) 5 (prepared ff w) = (Some e, v)"
  shows "of_kind Callback (trace (generateVideo env w)) = of_kind Callback (trace v)"
  using generateVideo_of_kind [OF assms(1), of Callback w] tryBody_frames_raise [OF assms(2)]
  by simp

lemma prepared_callbacks:
  "of_kind Callback (trace (setStatus ''Rendering frames'' (prepared ff w)))
     = of_kind Callback (trace w)"
  using keeps_prepare [of Callback w ff "frameCount w" 5 "audioName w"]
  by (simp add: keeps_def setStatus_def emit_def of_kind_def)

lemma generateVideo_callbacks_invalid:
  assumes "ffmpeg env = Some ff" and "configError env (config w) = Some e"
  shows "of_kind Callback (trace (generateVideo env w)) = of_kind Callback (trace w)"
  using generateVideo_callbacks_raise [OF assms(1) renderFrames_invalid [OF assms(2)]]
  by (simp add: prepared_callbacks)

lemma frameCount_nonpositive:
  "Number_times (duration (config w)) (fps (config w)) < 1 \<Longrightarrow> frameCount w \<le> 0"
  by (simp add: floor_less_iff flip: zless_add1_eq)

text \<open>
  Claim C2, as amended. The frame count is the floor of the product of the duration and
  the frame rate as JavaScript computes it, that is, rounded to binary64. When the
  production of the frames raises nothing, the frame callback has been invoked for the
  indices \<open>0, 1, ...\<close> in order, as many times as the frame count says when that is
  positive and not at all otherwise. In particular, when the product is below 1 (so
  also for a zero or negative duration or frame rate) the callback is never invoked in
  the attempt, and the production of the frames raises nothing when the renderer accepts
  the configuration, whatever the encoder does.
\<close>

theorem frames_produced:
  assumes "ffmpeg env = Some ff"
  shows "(fst (renderFrames env ff (config w)
                 \<lfloor>Number_times (duration (config w)) (fps (config w))\<rfloor> 5 (prepared ff w)) = None \<longrightarrow>
            of_kind Callback (trace (generateVideo env w)) =
              of_kind Callback (trace w) @
              map OnFrame [0 ..< nat \<lfloor>Number_times (duration (config w)) (fps (config w))\<rfloor>]) \<and>
         (Number_times (duration (config w)) (fps (config w)) < 1 \<longrightarrow>
            of_kind Callback (trace (generateVideo env w)) = of_kind Callback (trace w) \<and>
            (configError env (config w) = None \<longrightarrow>
               renderFrames env ff (config w)
                 \<lfloor>Number_times (duration (config w)) (fps (config w))\<rfloor> 5 v
                 = (None, setStatus ''Rendering frames'' v)))"
proof (intro conjI impI)
  assume "fst (renderFrames env ff (config w) (frameCount w) 5 (prepared ff w)) = None"
  then show "of_kind Callback (trace (generateVideo env w)) =
      of_kind Callback (trace w) @ map OnFrame [0 ..< nat (frameCount w)]"
    by (rule generateVideo_callbacks [OF assms])
next
  assume "Number_times (duration (config w)) (fps (config w)) < 1"
  then have n: "frameCount w \<le> 0" by (rule frameCount_nonpositive)
  show "of_kind Callback (trace (generateVideo env w)) = of_kind Callback (trace w)"
  proof (cases "configError env (config w)")
    case None
    have "fst (renderFrames env ff (config w) (frameCount w) 5 (prepared ff w)) = None"
      by (simp add: renderFrames_empty [OF n None])
    from generateVideo_callbacks [OF assms this] n show ?thesis by simp
  next
    case (Some e)
    show ?thesis by (rule generateVideo_callbacks_invalid [OF assms Some])
  qed
next
  assume "Number_times (duration (config w)) (fps (config w)) < 1"
    and c: "configError env (config w) = None"
  then have n: "frameCount w \<le> 0" by (intro frameCount_nonpositive)
  show "renderFrames env ff (config w) (frameCount w) 5 v = (None, setStatus ''Rendering frames'' v)"
    by (rule renderFrames_empty [OF n c])
qed

lemma more_example_cells:
  "Number_times (duration (config negativeDuration)) (fps (config negativeDuration)) = - 30"
  "trace negativeDuration = []"
  "Number_times (duration (config thirdOfASecond)) (fps (config thirdOfASecond)) = 1"
  "duration (config thirdOfASecond) * fps (config thirdOfASecond) < 1"
  "trace thirdOfASecond = []"
  "Number_times (duration (config zeroDuration)) (fps (config zeroDuration)) = 0"
  "Number_times (duration (config zeroWidth)) (fps (config zeroWidth)) = 0"
  "trace zeroWidth = []"
  by (simp_all add: negativeDuration_def thirdOfASecond_def zeroDuration_def zeroWidth_def
      idle_def initialState_def defaultConfig_def Number_times_examples
      Number_rounding_examples)

lemma thirdOfASecond_valid: "configError (quietEnv handle) (config thirdOfASecond) = None"
  by (simp add: quietEnv_configError thirdOfASecond_def idle_def initialState_def
      defaultConfig_dimensions)

lemma zeroDuration_valid: "configError (quietEnv handle) (config zeroDuration) = None"
  by (simp add: quietEnv_configError zeroDuration_def idle_def initialState_def
      defaultConfig_dimensions)

theorem frames_produced_witness:
  "ffmpeg (quietEnv (Some quietFFmpeg)) = Some quietFFmpeg \<and>
   fst (renderFrames (quietEnv (Some quietFFmpeg)) quietFFmpeg (config shortClip)
          \<lfloor>Number_times (duration (config shortClip)) (fps (config shortClip))\<rfloor> 5
          (prepared quietFFmpeg shortClip)) = None \<and>
   of_kind Callback (trace (generateVideo (quietEnv (Some quietFFmpeg)) shortClip)) =
     [OnFrame 0, OnFrame 1] \<and>
   Number_times (duration (config negativeDuration)) (fps (config negativeDuration)) < 1 \<and>
   configError (quietEnv (Some quietFFmpeg)) (config negativeDuration) = None \<and>
   of_kind Callback (trace (generateVideo (quietEnv (Some quietFFmpeg)) negativeDuration)) = [] \<and>
   renderFrames (quietEnv (Some quietFFmpeg)) quietFFmpeg (config negativeDuration)
     \<lfloor>Number_times (duration (config negativeDuration)) (fps (config negativeDuration))\<rfloor> 5
     negativeDuration
     = (None, setStatus ''Rendering frames'' negativeDuration) \<and>
   Number_times (duration (config zeroWidth)) (fps (config zeroWidth)) < 1 \<and>
   of_kind Callback (trace (generateVideo (quietEnv (Some quietFFmpeg)) zeroWidth)) = []"
proof -
  have q: "ffmpeg (quietEnv (Some quietFFmpeg)) = Some quietFFmpeg" by (simp add: quietEnv_def)
  have u: "[0 ..< (2::nat)] = [0, 1]" by (simp add: upt_rec)
  have r: "fst (renderFrames (quietEnv (Some quietFFmpeg)) quietFFmpeg (config shortClip)
          (frameCount shortClip) 5 (prepared quietFFmpeg shortClip)) = None"
    by (rule renderFrames_no_raise [OF _ _ _ shortClip_valid])
      (simp_all add: quietEnv_def quietFFmpeg_def)
  have neg: "Number_times (duration (config negativeDuration)) (fps (config negativeDuration)) < 1"
    by (simp add: more_example_cells(1))
  have zw: "Number_times (duration (config zeroWidth)) (fps (config zeroWidth)) < 1"
    by (simp add: more_example_cells(7))
  from frames_produced [OF q, of shortClip] r
  have "of_kind Callback (trace (generateVideo (quietEnv (Some quietFFmpeg)) shortClip)) =
      of_kind Callback (trace shortClip) @ map OnFrame [0 ..< nat (frameCount shortClip)]"
    by blast
  then have a: "of_kind Callback (trace (generateVideo (quietEnv (Some quietFFmpeg)) shortClip)) =
      [OnFrame 0, OnFrame 1]"
    by (simp add: shortClip_cells(1,3) u)
  from frames_produced [OF q, of negativeDuration negativeDuration] neg
    negativeDuration_valid [of "Some quietFFmpeg"]
  have "of_kind Callback (trace (generateVideo (quietEnv (Some quietFFmpeg)) negativeDuration)) =
      of_kind Callback (trace negativeDuration) \<and>
    renderFrames (quietEnv (Some quietFFmpeg)) quietFFmpeg (config negativeDuration)
     (frameCount negativeDuration) 5 negativeDuration
     = (None, setStatus ''Rendering frames'' negativeDuration)"
    by blast
  then have b: "of_kind Callback
      (trace (generateVideo (quietEnv (Some quietFFmpeg)) negativeDuration)) = []"
    and b': "renderFrames (quietEnv (Some quietFFmpeg)) quietFFmpeg (config negativeDuration)
     (frameCount negativeDuration) 5 negativeDuration
     = (None, setStatus ''Rendering frames'' negativeDuration)"
    by (simp_all add: more_example_cells(2))
  from frames_produced [OF q, of zeroWidth] zw
  have "of_kind Callback (trace (generateVideo (quietEnv (Some quietFFmpeg)) zeroWidth)) =
      of_kind Callback (trace zeroWidth)"
    by blast
  then have c: "of_kind Callback (trace (generateVideo (quietEnv (Some quietFFmpeg)) zeroWidth)) = []"
    by (simp add: more_example_cells(8))
  from q r a neg negativeDuration_valid [of "Some quietFFmpeg"] b b' zw c show ?thesis by blast
qed

text \<open>
  The claim as first stated fails in five ways. With a duration of \<open>-1\<close> nothing raises
  and no frame is produced, where the floor of the product is \<open>-30\<close>. With a duration
  of \<open>0.3333333333333333\<close> at 3 frames per second the exact product is below 1, and
  one frame is produced, for the product that the code computes is 1. When the writing
  of the first frame raises, the callback has been invoked once, where the frame count
  is 180. With a width of zero the product is 0 and the production of the frames raises
  the renderer's error. With a duration of zero and an encoder whose run raises, the
  attempt fails although no frame was asked for.
\<close>

theorem frames_produced_counterexample:
  "fst (tryBody (quietEnv (Some quietFFmpeg)) quietFFmpeg negativeDuration) = None \<and>
   int (length (of_kind Callback
          (trace (generateVideo (quietEnv (Some quietFFmpeg)) negativeDuration))))
     \<noteq> \<lfloor>Number_times (duration (config negativeDuration)) (fps (config negativeDuration))\<rfloor> \<and>
   duration (config thirdOfASecond) * fps (config thirdOfASecond) < 1 \<and>
   fst (tryBody (quietEnv (Some quietFFmpeg)) quietFFmpeg thirdOfASecond) = None \<and>
   of_kind Callback (trace (generateVideo (quietEnv (Some quietFFmpeg)) thirdOfASecond))
     = [OnFrame 0] \<and>
   max 0 \<lfloor>Number_times (duration (config idle)) (fps (config idle))\<rfloor> = 180 \<and>
   of_kind Callback (trace (generateVideo (quietEnv (Some fullFFmpeg)) idle)) = [OnFrame 0] \<and>
   error (generateVideo (quietEnv (Some fullFFmpeg)) idle) = Some ''No space left'' \<and>
   Number_times (duration (config zeroWidth)) (fps (config zeroWidth)) < 1 \<and>
   fst (renderFrames (quietEnv (Some quietFFmpeg)) quietFFmpeg (config zeroWidth)
         \<lfloor>Number_times (duration (config zeroWidth)) (fps (config zeroWidth))\<rfloor> 5
         (prepared quietFFmpeg zeroWidth)) = Some (Error ''RenderError'') \<and>
   status (generateVideo (quietEnv (Some quietFFmpeg)) zeroWidth) = ''Failed'' \<and>
   Number_times (duration (config zeroDuration)) (fps (config zeroDuration)) < 1 \<and>
   status (generateVideo (quietEnv (Some brokenFFmpeg)) zeroDuration) = ''Failed'' \<and>
   error (generateVideo (quietEnv (Some brokenFFmpeg)) zeroDuration) = Some ''Conversion failed''"
proof -
  have q: "ffmpeg (quietEnv (Some quietFFmpeg)) = Some quietFFmpeg"
    and b: "ffmpeg (quietEnv (Some brokenFFmpeg)) = Some brokenFFmpeg"
    and f: "ffmpeg (quietEnv (Some fullFFmpeg)) = Some fullFFmpeg"
    by (simp_all add: quietEnv_def)
  \<comment> \<open>a negative duration\<close>
  have n: "frameCount negativeDuration = - 30"
    by (simp add: more_example_cells(1))
  have "fst (renderFrames (quietEnv (Some quietFFmpeg)) quietFFmpeg (config negativeDuration)
          (frameCount negativeDuration) 5 (prepared quietFFmpeg negativeDuration)) = None"
    by (rule renderFrames_no_raise [OF _ _ _ negativeDuration_valid])
      (simp_all add: quietEnv_def quietFFmpeg_def)
  from generateVideo_callbacks [OF q this]
  have "of_kind Callback (trace (generateVideo (quietEnv (Some quietFFmpeg)) negativeDuration)) = []"
    by (simp add: n more_example_cells(2))
  then have 1: "int (length (of_kind Callback
          (trace (generateVideo (quietEnv (Some quietFFmpeg)) negativeDuration))))
     \<noteq> frameCount negativeDuration"
    using n by simp
  \<comment> \<open>a product that is rounded up to 1\<close>
  have t: "frameCount thirdOfASecond = 1"
    by (simp add: more_example_cells(3))
  have "fst (renderFrames (quietEnv (Some quietFFmpeg)) quietFFmpeg (config thirdOfASecond)
          (frameCount thirdOfASecond) 5 (prepared quietFFmpeg thirdOfASecond)) = None"
    by (rule renderFrames_no_raise [OF _ _ _ thirdOfASecond_valid])
      (simp_all add: quietEnv_def quietFFmpeg_def)
  from generateVideo_callbacks [OF q this]
  have 2: "of_kind Callback (trace (generateVideo (quietEnv (Some quietFFmpeg)) thirdOfASecond))
     = [OnFrame 0]"
    by (simp add: t more_example_cells(5))
  \<comment> \<open>the writing of the first frame raises\<close>
  have ff: "frameFailure (quietEnv (Some fullFFmpeg)) fullFFmpeg (config idle) (frameCount idle) 5 0
     (setStatus ''Rendering frames'' (prepared fullFFmpeg idle)) = Some (Error ''No space left'')"
    by (simp add: quietEnv_def fullFFmpeg_def quietFFmpeg_def)
  have l: "for_loop (int 0) 0
      (frameStep (quietEnv (Some fullFFmpeg)) fullFFmpeg (config idle) (frameCount idle) 5)
      (setStatus ''Rendering frames'' (prepared fullFFmpeg idle))
      = (None, setStatus ''Rendering frames'' (prepared fullFFmpeg idle))"
    by (simp add: for_loop_done)
  have i: "int 0 < frameCount idle" by (simp add: example_cells(1))
  note fr = renderFrames_frame_raises [OF idle_valid i l ff]
  have "of_kind Callback (trace (generateVideo (quietEnv (Some fullFFmpeg)) idle)) =
      of_kind Callback (trace (snd (onFrame (quietEnv (Some fullFFmpeg)) fullFFmpeg
        (frameCount idle) 5 0 [0] (setStatus ''Rendering frames'' (prepared fullFFmpeg idle)))))"
    using generateVideo_callbacks_raise [OF f fr] by (simp add: quietEnv_def)
  then have 3: "of_kind Callback (trace (generateVideo (quietEnv (Some fullFFmpeg)) idle))
      = [OnFrame 0]"
    by (simp only: onFrame_callback prepared_callbacks example_cells(5)) (simp add: of_kind_def)
  have "fst (tryBody (quietEnv (Some fullFFmpeg)) fullFFmpeg idle) = Some (Error ''No space left'')"
    using tryBody_frames_raise [OF fr] by simp
  from generateVideo_cells(3) [OF f this]
  have 4: "error (generateVideo (quietEnv (Some fullFFmpeg)) idle) = Some ''No space left''"
    by (simp add: error_message_def)
  \<comment> \<open>a configuration that the renderer rejects\<close>
  note zr = renderFrames_invalid [OF zeroWidth_invalid, of "Some quietFFmpeg" quietFFmpeg
      "frameCount zeroWidth" 5 "prepared quietFFmpeg zeroWidth"]
  have 5: "fst (renderFrames (quietEnv (Some quietFFmpeg)) quietFFmpeg (config zeroWidth)
         (frameCount zeroWidth) 5 (prepared quietFFmpeg zeroWidth)) = Some (Error ''RenderError'')"
    by (simp add: zr)
  have "fst (tryBody (quietEnv (Some quietFFmpeg)) quietFFmpeg zeroWidth)
      = Some (Error ''RenderError'')"
    using tryBody_frames_raise [OF zr] by simp
  from generateVideo_cells(2) [OF q this]
  have 6: "status (generateVideo (quietEnv (Some quietFFmpeg)) zeroWidth) = ''Failed''" .
  \<comment> \<open>no frame, and the encoder raises\<close>
  note z = broken_attempt [OF zeroDuration_valid]
  have 7: "status (generateVideo (quietEnv (Some brokenFFmpeg)) zeroDuration) = ''Failed''"
    by (rule generateVideo_cells(2) [OF b z])
  have 8: "error (generateVideo (quietEnv (Some brokenFFmpeg)) zeroDuration)
      = Some ''Conversion failed''"
    using generateVideo_cells(3) [OF b z] by (simp add: error_message_def)
  have m: "max 0 (frameCount idle) = 180" by (simp add: example_cells(1))
  have lt: "Number_times (duration (config zeroWidth)) (fps (config zeroWidth)) < 1"
    "Number_times (duration (config zeroDuration)) (fps (config zeroDuration)) < 1"
    by (simp_all add: more_example_cells)
  from quiet_attempt [OF negativeDuration_valid] 1 more_example_cells(4)
    quiet_attempt [OF thirdOfASecond_valid] 2 m 3 4 lt(1) 5 6 lt(2) 7 8
  show ?thesis by blast
qed

section \<open>The encoder's argument list\<close>

lemma command_list:
  "command fpsText pat a =
     [''-y'', ''-framerate'', fpsText, ''-i'', pat]
     @ (case a of Some x \<Rightarrow> [''-i'', x, ''-shortest''] | None \<Rightarrow> [])
     @ [''-c:v'', ''libx264'', ''-profile:v'', ''main'', ''-pix_fmt'', ''yuv420p'',
        ''-preset'', ''medium'']
     @ (case a of Some x \<Rightarrow> [''-c:a'', ''aac'', ''-b:a'', ''192k''] | None \<Rightarrow> [])
     @ [''output.mp4'']"
  by (simp add: command_def Let_def split: option.splits)

lemma generateVideo_exec:
  assumes "ffmpeg env = Some ff"
  shows "of_kind Encoder (trace (generateVideo env w)) = of_kind Encoder (trace w) \<and>
           fst (tryBody env ff w) \<noteq> None \<or>
         of_kind Encoder (trace (generateVideo env w)) =
           of_kind Encoder (trace w) @ [Exec (encoderArgs env w)]"
proof -
  obtain r w' where t: "tryBody env ff w = (r, w')" by force
  show ?thesis
    using tryBody_exec [OF t] generateVideo_of_kind [OF assms, of Encoder w] t by simp
qed

text \<open>
  Claim C5. In an attempt the encoder is run at most once, and exactly once when nothing
  raises; its argument list is \<open>-y -framerate <fps> -i frame_%05d.png\<close>, then
  \<open>-i <staged audio name> -shortest\<close> if and only if an audio file is supplied, then
  \<open>-c:v libx264 -profile:v main -pix_fmt yuv420p -preset medium\<close>, then
  \<open>-c:a aac -b:a 192k\<close> if and only if an audio file is supplied, then \<open>output.mp4\<close>.
\<close>

theorem encoder_argument_list:
  assumes "ffmpeg env = Some ff"
  shows "((audioInputName (audioFile w) = None) = (audioFile w = None)) \<and>
         (of_kind Encoder (trace (generateVideo env w)) = of_kind Encoder (trace w) \<and>
            fst (tryBody env ff w) \<noteq> None \<or>
          of_kind Encoder (trace (generateVideo env w)) =
            of_kind Encoder (trace w) @
            [Exec ([''-y'', ''-framerate'', numberToString env (fps (config w)), ''-i'',
                    ''frame_%05d.png'']
               @ (case audioInputName (audioFile w) of
                    Some a \<Rightarrow> [''-i'', a, ''-shortest''] | None \<Rightarrow> [])
               @ [''-c:v'', ''libx264'', ''-profile:v'', ''main'', ''-pix_fmt'', ''yuv420p'',
                  ''-preset'', ''medium'']
               @ (case audioInputName (audioFile w) of
                    Some a \<Rightarrow> [''-c:a'', ''aac'', ''-b:a'', ''192k''] | None \<Rightarrow> [])
               @ [''output.mp4''])])"
proof -
  have "(audioInputName (audioFile w) = None) = (audioFile w = None)"
    by (simp add: audioInputName_def split: option.splits)
  then show ?thesis
    using generateVideo_exec [OF assms, of w] unfolding command_list by blast
qed

theorem encoder_argument_list_witness:
  "ffmpeg (quietEnv (Some quietFFmpeg)) = Some quietFFmpeg \<and>
   of_kind Encoder (trace (generateVideo (quietEnv (Some quietFFmpeg)) shortClip)) =
     [Exec [''-y'', ''-framerate'', ''2'', ''-i'', ''frame_%05d.png'',
            ''-i'', ''audio_input.WAV'', ''-shortest'',
            ''-c:v'', ''libx264'', ''-profile:v'', ''main'', ''-pix_fmt'', ''yuv420p'',
            ''-preset'', ''medium'', ''-c:a'', ''aac'', ''-b:a'', ''192k'', ''output.mp4'']] \<and>
   of_kind Encoder (trace (generateVideo (quietEnv (Some quietFFmpeg)) idle)) =
     [Exec [''-y'', ''-framerate'', ''30'', ''-i'', ''frame_%05d.png'',
            ''-c:v'', ''libx264'', ''-profile:v'', ''main'', ''-pix_fmt'', ''yuv420p'',
            ''-preset'', ''medium'', ''output.mp4'']]"
proof -
  have q: "ffmpeg (quietEnv (Some quietFFmpeg)) = Some quietFFmpeg" by (simp add: quietEnv_def)
  have a: "audioInputName (audioFile shortClip) = Some ''audio_input.WAV''"
    by (simp add: shortClip_cells(2) audioInputName_def includes_str_def slice_def Let_def)
  have n: "numberToString (quietEnv (Some quietFFmpeg)) (fps (config shortClip)) = ''2''"
    "numberToString (quietEnv (Some quietFFmpeg)) (fps (config idle)) = ''30''"
    "audioInputName (audioFile idle) = None" "trace idle = []"
    by (simp_all add: quietEnv_def shortClip_def idle_def initialState_def defaultConfig_def
        audioInputName_def String_nat.simps digit_char_def)
  show ?thesis
    using encoder_argument_list [OF q, of shortClip] encoder_argument_list [OF q, of idle]
      quiet_attempt [OF shortClip_valid] quiet_attempt [OF idle_valid] q
    by (simp add: a n shortClip_cells(3))
qed

section \<open>Reset and the two buttons\<close>

lemma reset_cells:
  "config (reset w) = defaultConfig" "audioFile (reset w) = None" "previewUrl (reset w) = None"
  "status (reset w) = ''Idle''" "progress (reset w) = None" "error (reset w) = None"
  "retryCount (reset w) = 0" "isGenerating (reset w) = isGenerating w"
  "objectUrls (reset w) = objectUrls w" "nextUrl (reset w) = nextUrl w"
  "trace (reset w) =
     trace w @ [SetConfig defaultConfig, SetAudioFile None, SetPreviewUrl None,
                SetStatus ''Idle'', SetProgress None, SetError None]"
  by (simp_all add: reset_def Let_def setConfig_def setAudioFile_def setPreviewUrl_def
      setStatus_def setProgress_def setError_def emit_def)

lemma reset_published_valid: "configError (quietEnv handle) (config (reset published)) = None"
  by (simp add: reset_cells quietEnv_configError defaultConfig_dimensions)

lemma clickReset_in_flight: "isGenerating w \<Longrightarrow> clickReset w = w"
  by (simp add: clickReset_def resetDisabled_def)

text \<open>
  Claim C7 fails on the code. \<open>reset\<close> restores the defaults, clears the audio selection,
  the status, the progress, the error and the counter, and the reset button is disabled
  during an attempt; but it sets \<open>previewUrl\<close> to \<open>null\<close> without revoking the object URL,
  which \<open>generateVideo\<close> does when it replaces one. After a successful attempt and a reset
  nothing is published, and the object URL of that attempt is still alive.
\<close>

theorem reset_leaves_object_url_alive:
  "previewUrl published = Some (BlobUrl 0) \<and>
   dom (objectUrls published) = {BlobUrl 0} \<and>
   previewUrl (reset published) = None \<and>
   dom (objectUrls (reset published)) = {BlobUrl 0} \<and>
   of_kind Handle (trace (reset published)) =
     of_kind Handle (trace published) @ [SetPreviewUrl None]"
  by (simp add: reset_cells published_handle)

text \<open>
  Claim C3 fails on the code, through the same missing revocation in \<open>reset\<close>. A
  successful attempt, a reset and a second successful attempt leave two object URLs alive:
  the second attempt finds nothing published, so it revokes nothing, and the URL of the
  first attempt is never released.
\<close>

theorem two_live_handles_after_reset:
  "fst (tryBody (quietEnv (Some quietFFmpeg)) quietFFmpeg idle) = None \<and>
   fst (tryBody (quietEnv (Some quietFFmpeg)) quietFFmpeg (reset published)) = None \<and>
   previewUrl (generateVideo (quietEnv (Some quietFFmpeg)) (reset published)) = Some (BlobUrl 1) \<and>
   dom (objectUrls (generateVideo (quietEnv (Some quietFFmpeg)) (reset published))) =
     {BlobUrl 0, BlobUrl 1} \<and>
   card (dom (objectUrls (generateVideo (quietEnv (Some quietFFmpeg)) (reset published)))) = 2 \<and>
   of_kind Handle (trace (generateVideo (quietEnv (Some quietFFmpeg)) (reset published))) =
     of_kind Handle (trace published) @
     [SetPreviewUrl None, CreateObjectURL (BlobUrl 1), SetPreviewUrl (Some (BlobUrl 1))]"
proof -
  have q: "ffmpeg (quietEnv (Some quietFFmpeg)) = Some quietFFmpeg" by (simp add: quietEnv_def)
  note s = generateVideo_success [OF q quiet_attempt [OF reset_published_valid]]
  have d: "dom (objectUrls (generateVideo (quietEnv (Some quietFFmpeg)) (reset published))) =
     {BlobUrl 0, BlobUrl 1}"
    using s(4) by (auto simp: reset_cells published_handle)
  have h: "of_kind Handle (trace (generateVideo (quietEnv (Some quietFFmpeg)) (reset published))) =
     of_kind Handle (trace published) @
     [SetPreviewUrl None, CreateObjectURL (BlobUrl 1), SetPreviewUrl (Some (BlobUrl 1))]"
    by (simp add: s(1) successfulCalls_Handle reset_cells published_handle)
  show ?thesis
    using s(2) d h quiet_attempt [OF idle_valid] quiet_attempt [OF reset_published_valid]
    by (simp add: reset_cells published_handle)
qed

lemma onSubmit_ready:
  "ready w \<Longrightarrow> \<not> loading w \<Longrightarrow> onSubmit env w = generateVideo env w"
  by (simp add: onSubmit_def)

lemma generateVideo_flag:
  assumes "ffmpeg env = Some ff"
  shows "of_kind Flag (trace (generateVideo env w)) =
           of_kind Flag (trace w) @ [SetIsGenerating True, SetIsGenerating False]"
proof -
  obtain r w1 where t: "tryBody env ff w = (r, w1)" by force
  have "of_kind Flag (trace w1) = of_kind Flag (trace w) @ [SetIsGenerating True]"
    using tryBody_flag [of env ff w] t by simp
  then show ?thesis
    by (cases r)
      (simp_all add: generateVideo_result [OF assms t] setIsGenerating_def setStatus_def
        setError_def emit_def)
qed

text \<open>
  Claim C8. An attempt raises the in-flight flag once and lowers it once, in this order,
  and the flag is up at the end of the \<open>try\<close> block, whatever happened in it. While the
  flag is up the submit button is disabled, so that submitting the form starts nothing and
  leaves the state as it is. (The guard is the button's: \<open>onSubmit\<close> itself tests only
  \<open>ready\<close> and \<open>loading\<close>.)
\<close>

theorem submission_rejected_while_generating:
  assumes "ffmpeg env = Some ff"
  shows "isGenerating (snd (tryBody env ff w)) \<and>
         of_kind Flag (trace (generateVideo env w)) =
           of_kind Flag (trace w) @ [SetIsGenerating True, SetIsGenerating False] \<and>
         (isGenerating v \<longrightarrow> submitDisabled v \<and> submitForm env' v = v)"
  using tryBody_flag [of env ff w] generateVideo_flag [OF assms, of w]
  by (simp add: submitForm_def submitDisabled_def)

theorem submission_rejected_while_generating_witness:
  "ffmpeg (quietEnv (Some quietFFmpeg)) = Some quietFFmpeg \<and>
   isGenerating (snd (tryBody (quietEnv (Some quietFFmpeg)) quietFFmpeg idle)) \<and>
   ready (snd (tryBody (quietEnv (Some quietFFmpeg)) quietFFmpeg idle)) \<and>
   submitForm (quietEnv (Some quietFFmpeg)) (snd (tryBody (quietEnv (Some quietFFmpeg)) quietFFmpeg idle))
     = snd (tryBody (quietEnv (Some quietFFmpeg)) quietFFmpeg idle) \<and>
   of_kind Flag (trace (generateVideo (quietEnv (Some quietFFmpeg)) idle)) =
     [SetIsGenerating True, SetIsGenerating False]"
proof -
  have q: "ffmpeg (quietEnv (Some quietFFmpeg)) = Some quietFFmpeg" by (simp add: quietEnv_def)
  have r: "ready (snd (tryBody (quietEnv (Some quietFFmpeg)) quietFFmpeg idle))"
    using tryBody_keeps_Input [of idle "quietEnv (Some quietFFmpeg)" quietFFmpeg]
    by (simp add: keeps_def idle_def initialState_def)
  have t: "trace idle = []" by (simp add: idle_def initialState_def)
  show ?thesis
    using submission_rejected_while_generating [OF q, of idle
        "snd (tryBody (quietEnv (Some quietFFmpeg)) quietFFmpeg idle)" "quietEnv (Some quietFFmpeg)"]
      q r t
    by simp
qed

end
